theory Spec2Isabelle
  imports Complex_Main "HOL-Library.Word" "HOL-Library.Multiset"
begin

unbundle bit_operations_syntax

section \<open>Descriptor codec\<close>

text \<open>
  The descriptor-matching service of \<^verbatim>\<open>api/index.js\<close>: the base64 descriptor codec
  (\<^verbatim>\<open>deserializeDescriptors\<close>), the lazily filled template cache
  (\<^verbatim>\<open>templateFeatures\<close>, \<^verbatim>\<open>loadFeaturesFromCache\<close>) and the matcher
  (\<^verbatim>\<open>matchEquipment\<close>) with the per-blob loop of \<^verbatim>\<open>handleDetectRequest\<close>.
\<close>

subsection \<open>\<^verbatim>\<open>Buffer.from(s, 'base64')\<close>\<close>

text \<open>
  The runtime's base64 decoder never throws on a string. It accepts the standard and the
  URL-safe alphabet, skips every other character, stops at the first \<^verbatim>\<open>=\<close>, and
  turns the sextets read so far into bytes: four sextets give three bytes, a trailing
  group of two or three sextets gives one or two bytes, a single trailing sextet gives
  none.
\<close>

type_synonym byte = "8 word"

definition unbase64 :: "char \<Rightarrow> nat option" where
  "unbase64 c =
     (let n = (of_char c :: nat) in
      if 65 \<le> n \<and> n \<le> 90 then Some (n - 65)
      else if 97 \<le> n \<and> n \<le> 122 then Some (n - 71)
      else if 48 \<le> n \<and> n \<le> 57 then Some (n + 4)
      else if n = 43 \<or> n = 45 then Some 62
      else if n = 47 \<or> n = 95 then Some 63
      else None)"

fun sextets :: "string \<Rightarrow> nat list" where
  "sextets [] = []"
| "sextets (c # cs) =
     (case unbase64 c of
        Some v \<Rightarrow> v # sextets cs
      | None \<Rightarrow> if c = CHR ''='' then [] else sextets cs)"

fun pack_sextets :: "nat list \<Rightarrow> byte list" where
  "pack_sextets (a # b # c # d # r) =
     of_nat (a * 4 + b div 16) # of_nat ((b mod 16) * 16 + c div 4)
       # of_nat ((c mod 4) * 64 + d) # pack_sextets r"
| "pack_sextets [a, b, c] = [of_nat (a * 4 + b div 16), of_nat ((b mod 16) * 16 + c div 4)]"
| "pack_sextets [a, b] = [of_nat (a * 4 + b div 16)]"
| "pack_sextets _ = []"

definition Buffer_from_base64 :: "string \<Rightarrow> byte list" where
  "Buffer_from_base64 s = pack_sextets (sextets s)"

text \<open>
  Well-formed base64 text in the sense of RFC 4648: only alphabet characters, then at
  most two \<^verbatim>\<open>=\<close> of padding, the whole a multiple of four characters long. It is
  what "the encoding itself is valid" is measured against; the code never checks it.
\<close>

definition base64_wellformed :: "string \<Rightarrow> bool" where
  "base64_wellformed s =
     (let body = takeWhile (\<lambda>c. c \<noteq> CHR ''='') s;
          pad = dropWhile (\<lambda>c. c \<noteq> CHR ''='') s
      in list_all (\<lambda>c. unbase64 c \<noteq> None) body
         \<and> list_all (\<lambda>c. c = CHR ''='') pad
         \<and> length pad \<le> 2
         \<and> length s mod 4 = 0)"

subsection \<open>\<^verbatim>\<open>cv.Mat\<close>\<close>

text \<open>
  A matrix is its header and its row-major element bytes. \<^verbatim>\<open>cv.CV_8U\<close> is type
  code 0; \<^verbatim>\<open>new cv.Mat()\<close> is the 0 by 0 matrix of that type, and
  \<^verbatim>\<open>empty()\<close> holds when the matrix has no element.
\<close>

record Mat =
  rows :: nat
  cols :: nat
  mtype :: nat
  data :: "byte list"

definition CV_8U :: nat where
  "CV_8U = 0"

definition new_Mat :: Mat where
  "new_Mat = \<lparr>rows = 0, cols = 0, mtype = CV_8U, data = []\<rparr>"

definition matFromArray :: "nat \<Rightarrow> nat \<Rightarrow> nat \<Rightarrow> byte list \<Rightarrow> Mat" where
  "matFromArray r c t array = \<lparr>rows = r, cols = c, mtype = t, data = array\<rparr>"

definition Mat_empty :: "Mat \<Rightarrow> bool" where
  "Mat_empty m = (rows m * cols m = 0)"

definition Mat_row :: "Mat \<Rightarrow> nat \<Rightarrow> byte list" where
  "Mat_row m i = take (cols m) (drop (i * cols m) (data m))"

definition descriptors :: "Mat \<Rightarrow> byte list list" where
  "descriptors m = map (Mat_row m) [0..<rows m]"

subsection \<open>\<^verbatim>\<open>deserializeDescriptors\<close>\<close>

text \<open>
  The only error the function raises is the one for a buffer whose length is not a
  multiple of 32; the \<^verbatim>\<open>catch\<close> rethrows it under the message
  \<^verbatim>\<open>Failed to deserialize base64 content\<close>. The error value keeps the length.
\<close>

datatype error = Failed_to_deserialize nat

definition descriptorSize :: nat where
  "descriptorSize = 32"

definition deserializeDescriptors :: "string \<Rightarrow> error + Mat" where
  "deserializeDescriptors base64Content =
     (let buffer = Buffer_from_base64 base64Content in
      if length buffer mod descriptorSize \<noteq> 0 then Inl (Failed_to_deserialize (length buffer))
      else
        let numDescriptors = length buffer div descriptorSize in
        if numDescriptors = 0 then Inr new_Mat
        else Inr (matFromArray numDescriptors descriptorSize CV_8U buffer))"

section \<open>Template cache\<close>

subsection \<open>Objects with string keys\<close>

text \<open>
  \<^verbatim>\<open>templateFeatures\<close> and each of its values are plain objects used as dictionaries.
  An object is the list of its own properties in the order \<^verbatim>\<open>for ... in\<close> and
  \<^verbatim>\<open>Object.keys\<close> visit them: keys that are array indices (canonical decimal
  numerals below \<open>2\<^sup>3\<^sup>2 - 1\<close>) first, in ascending numeric order, then every other key
  in insertion order. Assigning to an existing key keeps its place. An assignment to
  \<^verbatim>\<open>__proto__\<close> creates no own property; what it does to the prototype chain is
  not modelled, so inherited properties play no part here.
\<close>

type_synonym 'v js_object = "(string \<times> 'v) list"

definition js_get :: "'v js_object \<Rightarrow> string \<Rightarrow> 'v option" where
  "js_get obj k = map_of obj k"

definition is_digit :: "char \<Rightarrow> bool" where
  "is_digit c = (48 \<le> (of_char c :: nat) \<and> (of_char c :: nat) \<le> 57)"

definition digits_value :: "string \<Rightarrow> nat" where
  "digits_value k = foldl (\<lambda>n c. 10 * n + ((of_char c :: nat) - 48)) 0 k"

definition array_index :: "string \<Rightarrow> nat option" where
  "array_index k =
     (if k = [] then None
      else if list_all is_digit k \<and> (if length k = 1 then True else hd k \<noteq> CHR ''0'')
              \<and> digits_value k < 4294967295
      then Some (digits_value k) else None)"

fun insert_index :: "nat \<Rightarrow> string \<Rightarrow> 'v \<Rightarrow> 'v js_object \<Rightarrow> 'v js_object" where
  "insert_index i k v [] = [(k, v)]"
| "insert_index i k v ((k', v') # r) =
     (case array_index k' of
        Some j \<Rightarrow> if j < i then (k', v') # insert_index i k v r else (k, v) # (k', v') # r
      | None \<Rightarrow> (k, v) # (k', v') # r)"

definition js_set :: "'v js_object \<Rightarrow> string \<Rightarrow> 'v \<Rightarrow> 'v js_object" where
  "js_set obj k v =
     (if k = ''__proto__'' then obj
      else if k \<in> fst ` set obj then map (\<lambda>(k', v'). if k' = k then (k', v) else (k', v')) obj
      else case array_index k of
             Some i \<Rightarrow> insert_index i k v obj
           | None \<Rightarrow> obj @ [(k, v)])"

subsection \<open>Cache artifacts and the service state\<close>

text \<open>
  What \<^verbatim>\<open>fs.access\<close>, \<^verbatim>\<open>fs.readFile\<close> and \<^verbatim>\<open>JSON.parse\<close> make of a cache
  file: no such file (\<^verbatim>\<open>ENOENT\<close>), any other failure (an unreadable file, text that
  is not JSON, a document that is \<^verbatim>\<open>null\<close>), or the parsed document. Of the
  document only the two fields the loader reads are kept, as the artifact format has
  them: an array of names and an array of blobs, each blob a string or \<^verbatim>\<open>null\<close>.
  A field is \<open>None\<close> when it is absent or falsy, and a blob is \<open>None\<close> when it is
  \<^verbatim>\<open>null\<close>. Files are named relative to the cache directory and do not change
  while the service runs.
\<close>

record cachedData =
  template_names :: "string list option"
  descriptors_list :: "string option list option"

datatype artifact = ENOENT | Unreadable | Parsed cachedData

type_synonym filesystem = "string \<Rightarrow> artifact"

text \<open>
  The state is the global \<^verbatim>\<open>templateFeatures\<close> together with a trace of the cache
  files the loader went to the file system for, oldest first.
\<close>

record state =
  templateFeatures :: "Mat js_object js_object"
  artifact_reads :: "string list"

definition templateFeatures_init :: "Mat js_object js_object" where
  "templateFeatures_init =
     [(''summon/party_main'', []), (''summon/party_sub'', []), (''weapon/main'', []),
      (''weapon/normal'', []), (''chara'', [])]"

definition init_state :: state where
  "init_state = \<lparr>templateFeatures = templateFeatures_init, artifact_reads = []\<rparr>"

text \<open>
  The test both the loader and the matcher make:
  \<^verbatim>\<open>templateFeatures[t] && Object.keys(templateFeatures[t]).length > 0\<close>.
\<close>

definition has_features :: "state \<Rightarrow> string \<Rightarrow> bool" where
  "has_features s equipmentType =
     (case js_get (templateFeatures s) equipmentType of
        Some obj \<Rightarrow> obj \<noteq> []
      | None \<Rightarrow> False)"

definition ensure_object :: "state \<Rightarrow> string \<Rightarrow> state" where
  "ensure_object s equipmentType =
     (case js_get (templateFeatures s) equipmentType of
        Some obj \<Rightarrow> s
      | None \<Rightarrow> s\<lparr>templateFeatures := js_set (templateFeatures s) equipmentType []\<rparr>)"

definition store_template :: "state \<Rightarrow> string \<Rightarrow> string \<Rightarrow> Mat \<Rightarrow> state" where
  "store_template s equipmentType name desMat =
     (case js_get (templateFeatures s) equipmentType of
        Some obj \<Rightarrow>
          s\<lparr>templateFeatures := js_set (templateFeatures s) equipmentType (js_set obj name desMat)\<rparr>
      | None \<Rightarrow> s)"

subsection \<open>\<^verbatim>\<open>loadFeaturesFromCache\<close>\<close>

text \<open>
  The loop over the parallel arrays runs only when they have the same length, so it is a
  recursion over their zip. A blob that is falsy (\<^verbatim>\<open>null\<close> or the empty string), one
  that fails to decode and one that decodes to an empty matrix are each skipped with a
  log line.
\<close>

fun load_entries :: "state \<Rightarrow> string \<Rightarrow> (string \<times> string option) list \<Rightarrow> state" where
  "load_entries s equipmentType [] = s"
| "load_entries s equipmentType ((name, desStr) # rest) =
     (case desStr of
        None \<Rightarrow> load_entries s equipmentType rest
      | Some str \<Rightarrow>
          if str = [] then load_entries s equipmentType rest
          else
            (case deserializeDescriptors str of
               Inl deserializeError \<Rightarrow> load_entries s equipmentType rest
             | Inr desMat \<Rightarrow>
                 if Mat_empty desMat then load_entries s equipmentType rest
                 else load_entries (store_template s equipmentType name desMat) equipmentType rest))"

definition cacheFileName :: "string \<Rightarrow> string" where
  "cacheFileName equipmentType = equipmentType @ ''_features.json''"

definition loadFeaturesFromCache :: "filesystem \<Rightarrow> state \<Rightarrow> string \<Rightarrow> state" where
  "loadFeaturesFromCache fs s equipmentType =
     (if has_features s equipmentType then s
      else
        let s1 = ensure_object s equipmentType;
            s2 = s1\<lparr>artifact_reads := artifact_reads s1 @ [cacheFileName equipmentType]\<rparr>
        in case fs (cacheFileName equipmentType) of
             Parsed cached \<Rightarrow>
               (case template_names cached of
                  None \<Rightarrow> s2
                | Some templateNames \<Rightarrow>
                    (case descriptors_list cached of
                       None \<Rightarrow> s2
                     | Some serializedDescriptors \<Rightarrow>
                         if length templateNames \<noteq> length serializedDescriptors then s2
                         else load_entries s2 equipmentType (zip templateNames serializedDescriptors)))
           | ENOENT \<Rightarrow> ensure_object s2 equipmentType
           | Unreadable \<Rightarrow> ensure_object s2 equipmentType)"

subsection \<open>The loader cut at its \<^verbatim>\<open>await\<close>\<close>

text \<open>
  \<^verbatim>\<open>loadFeaturesFromCache\<close> is asynchronous. A call runs without interruption up to
  \<^verbatim>\<open>await fs.access\<close>: it makes the check of line 61, creates the object when it is
  missing and asks the file system for the cache file. It stores nothing before the
  file has been read; everything after the two \<^verbatim>\<open>await\<close>s (parsing, the loop, the
  \<^verbatim>\<open>catch\<close>) runs later, again without interruption, on the state as it is then.
  Between the two parts other calls may run. \<open>load_begin\<close> is the first part and says
  whether the call is waiting for the file; \<open>load_resume\<close> is the second part of a
  waiting call.
\<close>

definition load_begin :: "state \<Rightarrow> string \<Rightarrow> state \<times> bool" where
  "load_begin s equipmentType =
     (if has_features s equipmentType then (s, False)
      else
        let s1 = ensure_object s equipmentType
        in (s1\<lparr>artifact_reads := artifact_reads s1 @ [cacheFileName equipmentType]\<rparr>, True))"

definition load_finish :: "filesystem \<Rightarrow> state \<Rightarrow> string \<Rightarrow> state" where
  "load_finish fs s equipmentType =
     (case fs (cacheFileName equipmentType) of
        Parsed cached \<Rightarrow>
          (case template_names cached of
             None \<Rightarrow> s
           | Some templateNames \<Rightarrow>
               (case descriptors_list cached of
                  None \<Rightarrow> s
                | Some serializedDescriptors \<Rightarrow>
                    if length templateNames \<noteq> length serializedDescriptors then s
                    else load_entries s equipmentType (zip templateNames serializedDescriptors)))
      | ENOENT \<Rightarrow> ensure_object s equipmentType
      | Unreadable \<Rightarrow> ensure_object s equipmentType)"

definition load_resume :: "filesystem \<Rightarrow> bool \<Rightarrow> state \<Rightarrow> string \<Rightarrow> state" where
  "load_resume fs waiting s equipmentType =
     (if waiting then load_finish fs s equipmentType else s)"

text \<open>
  Two calls for one category. In \<open>consecutive_loads\<close> the second call begins when the
  first has finished, as the calls of one request do (the handler awaits each match).
  In \<open>overlapping_loads\<close> the second call begins while the first is waiting for the
  file, as calls of two requests can; the first call is resumed first.
\<close>

definition consecutive_loads :: "filesystem \<Rightarrow> state \<Rightarrow> string \<Rightarrow> state" where
  "consecutive_loads fs s equipmentType =
     (case load_begin s equipmentType of
        (s1, waiting1) \<Rightarrow>
          (case load_begin (load_resume fs waiting1 s1 equipmentType) equipmentType of
             (s2, waiting2) \<Rightarrow> load_resume fs waiting2 s2 equipmentType))"

definition overlapping_loads :: "filesystem \<Rightarrow> state \<Rightarrow> string \<Rightarrow> state" where
  "overlapping_loads fs s equipmentType =
     (case load_begin s equipmentType of
        (s1, waiting1) \<Rightarrow>
          (case load_begin s1 equipmentType of
             (s2, waiting2) \<Rightarrow>
               load_resume fs waiting2 (load_resume fs waiting1 s2 equipmentType)
                 equipmentType))"

section \<open>Matcher\<close>

subsection \<open>Single precision\<close>

text \<open>
  The matcher reports a distance as a single-precision number: the binary floating-point
  number with a mantissa of 24 bits that is nearest to the square root of the sum of
  squares. For a sum \<open>s\<close> the sum is scaled by powers of 4 until it is at least
  \<open>2\<^sup>4\<^sup>6\<close>, so that its root has 24 bits before the point; the mantissa is the integer
  nearest to that root (a root of an integer is never half way between two integers),
  and the result is the mantissa scaled back. This is the correctly rounded root for
  every sum below \<open>2\<^sup>4\<^sup>8\<close>. JavaScript reads the number as a double without change,
  and the product with 0.75 is exact in double precision, so the comparison of the
  code is the comparison of these numbers as reals.
\<close>

fun floor_sqrt :: "nat \<Rightarrow> nat" where
  "floor_sqrt n =
     (if n < 4 then (if n = 0 then 0 else 1)
      else let r = 2 * floor_sqrt (n div 4) in if (r + 1) * (r + 1) \<le> n then r + 1 else r)"

declare floor_sqrt.simps [simp del]

definition round_sqrt :: "nat \<Rightarrow> nat" where
  "round_sqrt n = (let f = floor_sqrt n in if n \<le> f * f + f then f else f + 1)"

function scale_up :: "nat \<Rightarrow> nat \<Rightarrow> nat \<times> nat" where
  "scale_up n k =
     (if n = 0 then (n, k)
      else if 70368744177664 \<le> n then (n, k)
      else scale_up (4 * n) (Suc k))"
  by pat_completeness auto
termination
  by (relation "measure (\<lambda>(n, k). 70368744177664 - n)") auto

declare scale_up.simps [simp del]

definition float32_sqrt :: "nat \<Rightarrow> real" where
  "float32_sqrt s = (case scale_up s 0 of (n, k) \<Rightarrow> real (round_sqrt n) / 2 ^ k)"

subsection \<open>\<^verbatim>\<open>BFMatcher.knnMatch\<close>\<close>

text \<open>
  \<^verbatim>\<open>new cv.BFMatcher()\<close> takes the library's defaults: the norm is \<^verbatim>\<open>NORM_L2\<close>
  and there is no cross check. For two matrices of 8-bit rows the matcher returns, for
  each query row, its \<open>k\<close> nearest train rows (fewer when the train matrix has fewer
  rows), nearest first, a tie going to the lower train index. The distance of a match is
  the Euclidean distance of the two rows in single precision: the rounded root of the
  sum of the squared byte differences. Nearness is judged by these rounded distances.
  The library adds the squares in single precision too, which is exact while the sum
  stays below \<open>2\<^sup>2\<^sup>4\<close>, as it does for rows of up to 258 bytes; the descriptors of this
  service have 32. The call does nothing for an empty matrix and fails an assertion
  when the matrices differ in type or width, or when the train matrix has \<open>2\<^sup>1\<^sup>8\<close> rows
  or more (the matcher packs the row index into 18 bits).
\<close>

record DMatch =
  queryIdx :: nat
  trainIdx :: nat
  distance :: real

definition normL2Sqr :: "byte list \<Rightarrow> byte list \<Rightarrow> nat" where
  "normL2Sqr a b = sum_list (map (\<lambda>(x, y). nat ((int (unat x) - int (unat y))\<^sup>2)) (zip a b))"

definition train_matches :: "Mat \<Rightarrow> nat \<Rightarrow> Mat \<Rightarrow> DMatch list" where
  "train_matches q qi t =
     map (\<lambda>j. \<lparr>queryIdx = qi, trainIdx = j,
               distance = float32_sqrt (normL2Sqr (Mat_row q qi) (Mat_row t j))\<rparr>)
       [0..<rows t]"

definition knnMatch :: "Mat \<Rightarrow> Mat \<Rightarrow> nat \<Rightarrow> DMatch list list option" where
  "knnMatch q t k =
     (if Mat_empty q then Some []
      else if Mat_empty t then Some []
      else if mtype q = mtype t \<and> cols q = cols t \<and> rows t < 262144
      then Some (map (\<lambda>qi. take k (sort_key distance (train_matches q qi t))) [0..<rows q])
      else None)"

subsection \<open>\<^verbatim>\<open>matchEquipment\<close>\<close>

record match_result =
  id' :: string
  confidence :: nat

definition ratioThresh :: real where
  "ratioThresh = 0.75"

fun goodMatchesCount :: "DMatch list list \<Rightarrow> nat" where
  "goodMatchesCount [] = 0"
| "goodMatchesCount (matchVec # r) =
     (case matchVec of
        m # n # _ \<Rightarrow> if distance m < ratioThresh * distance n then 1 else 0
      | _ \<Rightarrow> 0) + goodMatchesCount r"

text \<open>
  The loop over the templates of a category, in enumeration order. It carries the
  \<^verbatim>\<open>matches\<close> array and, as a trace, the names of the templates handed to
  \<^verbatim>\<open>knnMatch\<close>. A template whose comparison throws is logged and passed over.
\<close>

fun match_templates ::
  "Mat \<Rightarrow> int \<Rightarrow> bool \<Rightarrow> Mat js_object \<Rightarrow> match_result list \<Rightarrow> string list
     \<Rightarrow> match_result list \<times> string list" where
  "match_templates q threshold earlyReturn [] matches compared = (matches, compared)"
| "match_templates q threshold earlyReturn ((templateName, templateDes) # rest) matches compared =
     (if Mat_empty templateDes then match_templates q threshold earlyReturn rest matches compared
      else if mtype templateDes \<noteq> CV_8U
      then match_templates q threshold earlyReturn rest matches compared
      else
        (case knnMatch q templateDes 2 of
           None \<Rightarrow> match_templates q threshold earlyReturn rest matches (compared @ [templateName])
         | Some knnMatches \<Rightarrow>
             let count = goodMatchesCount knnMatches in
             if threshold \<le> int count
             then
               (if earlyReturn
                then (matches @ [\<lparr>id' = templateName, confidence = count\<rparr>],
                      compared @ [templateName])
                else match_templates q threshold earlyReturn rest
                       (matches @ [\<lparr>id' = templateName, confidence = count\<rparr>])
                       (compared @ [templateName]))
             else match_templates q threshold earlyReturn rest matches
                    (compared @ [templateName])))"

text \<open>
  \<^verbatim>\<open>matches.sort((a, b) => b.confidence - a.confidence)\<close> is a stable sort by
  descending confidence, and \<^verbatim>\<open>matches.slice(0, top_n)\<close> counts a negative end from
  the back of the array.
\<close>

definition sort_matches :: "match_result list \<Rightarrow> match_result list" where
  "sort_matches matches = sort_key (\<lambda>m. - int (confidence m)) matches"

definition slice0 :: "'a list \<Rightarrow> int \<Rightarrow> 'a list" where
  "slice0 xs n =
     (if n < 0 then take (nat (int (length xs) + n)) xs else take (nat n) xs)"

text \<open>
  \<^verbatim>\<open>matchEquipment\<close> returns the match list; the model returns with it the state the
  lazy load leaves behind and the trace of compared templates. \<^verbatim>\<open>convertTo\<close> is the
  library's conversion of a query that is not of type \<^verbatim>\<open>CV_8U\<close>, \<open>None\<close> when it
  throws.
\<close>

definition matchEquipment ::
  "filesystem \<Rightarrow> (Mat \<Rightarrow> Mat option) \<Rightarrow> state \<Rightarrow> Mat \<Rightarrow> string \<Rightarrow> int \<Rightarrow> int \<Rightarrow> bool
     \<Rightarrow> match_result list \<times> state \<times> string list" where
  "matchEquipment fs convertTo s queryDescriptors equipmentType threshold top_n earlyReturn =
     (let s1 = (if has_features s equipmentType then s
                else loadFeaturesFromCache fs s equipmentType)
      in
      if has_features s1 equipmentType = False then ([], s1, [])
      else if Mat_empty queryDescriptors then ([], s1, [])
      else
        (case js_get (templateFeatures s1) equipmentType of
           None \<Rightarrow> ([], s1, [])
         | Some typeTemplates \<Rightarrow>
             (case (if mtype queryDescriptors = CV_8U then Some queryDescriptors
                    else convertTo queryDescriptors) of
                None \<Rightarrow> ([], s1, [])
              | Some queryDescriptorsToUse \<Rightarrow>
                  (case match_templates queryDescriptorsToUse threshold earlyReturn
                          typeTemplates [] [] of
                     (matches, compared) \<Rightarrow>
                       (slice0 (sort_matches matches) top_n, s1, compared)))))"

subsection \<open>The per-blob loop of \<^verbatim>\<open>handleDetectRequest\<close>\<close>

text \<open>
  Each content string is decoded and matched with threshold 10 and limit 3; a decoding
  error becomes the entry of that blob and the loop goes on.
\<close>

fun detect_contents ::
  "filesystem \<Rightarrow> (Mat \<Rightarrow> Mat option) \<Rightarrow> string \<Rightarrow> bool \<Rightarrow> state \<Rightarrow> string list
     \<Rightarrow> (error + match_result list) list \<times> state" where
  "detect_contents fs convertTo equipmentType earlyReturn s [] = ([], s)"
| "detect_contents fs convertTo equipmentType earlyReturn s (content # rest) =
     (case deserializeDescriptors content of
        Inl e \<Rightarrow>
          (case detect_contents fs convertTo equipmentType earlyReturn s rest of
             (results, s') \<Rightarrow> (Inl e # results, s'))
      | Inr queryDes \<Rightarrow>
          (case matchEquipment fs convertTo s queryDes equipmentType 10 3 earlyReturn of
             (topMatches, s1, compared) \<Rightarrow>
               (case detect_contents fs convertTo equipmentType earlyReturn s1 rest of
                  (results, s') \<Rightarrow> (Inr topMatches # results, s'))))"

section \<open>Notions the properties are stated with\<close>

subsection \<open>Loading\<close>

text \<open>
  The names every object inherits from \<^verbatim>\<open>Object.prototype\<close>. A category of such a
  name would make \<^verbatim>\<open>templateFeatures[t]\<close> find an inherited property; the categories
  of the routes are none of them.
\<close>

definition Object_prototype_keys :: "string list" where
  "Object_prototype_keys =
     [''constructor'', ''__defineGetter__'', ''__defineSetter__'', ''hasOwnProperty'',
      ''__lookupGetter__'', ''__lookupSetter__'', ''isPrototypeOf'', ''propertyIsEnumerable'',
      ''toString'', ''valueOf'', ''__proto__'', ''toLocaleString'']"

definition ordinary_key :: "string \<Rightarrow> bool" where
  "ordinary_key k = (list_all (\<lambda>p. p \<noteq> k) Object_prototype_keys)"

text \<open>
  The entries a category holds: the own properties of its object, none when the
  category has no object.
\<close>

definition category_entries :: "state \<Rightarrow> string \<Rightarrow> Mat js_object" where
  "category_entries s equipmentType =
     (case js_get (templateFeatures s) equipmentType of
        Some obj \<Rightarrow> obj
      | None \<Rightarrow> [])"

text \<open>The categories the routes of the service pass to the handler.\<close>

definition route_categories :: "string list" where
  "route_categories =
     [''summon/party_main'', ''summon/party_sub'', ''weapon/main'', ''weapon/normal'',
      ''priority/weapon/main'', ''priority/weapon/normal'', ''chara'']"

text \<open>
  An entry of an artifact is usable when its blob is a string that decodes to a matrix
  with at least one descriptor. (The empty string decodes to the empty matrix.)
\<close>

fun decoded_entry :: "string \<times> string option \<Rightarrow> (string \<times> Mat) option" where
  "decoded_entry (name, None) = None"
| "decoded_entry (name, Some str) =
     (case deserializeDescriptors str of
        Inl e \<Rightarrow> None
      | Inr m \<Rightarrow> if Mat_empty m then None else Some (name, m))"

definition usable_entries :: "(string \<times> string option) list \<Rightarrow> (string \<times> Mat) list" where
  "usable_entries ps = List.map_filter decoded_entry ps"

text \<open>
  A load fails when the artifact is missing or unreadable, or when one of its two arrays
  is absent or the arrays differ in length.
\<close>

definition load_fails :: "filesystem \<Rightarrow> string \<Rightarrow> bool" where
  "load_fails fs equipmentType =
     (case fs (cacheFileName equipmentType) of
        ENOENT \<Rightarrow> True
      | Unreadable \<Rightarrow> True
      | Parsed cached \<Rightarrow>
          (case template_names cached of
             None \<Rightarrow> True
           | Some templateNames \<Rightarrow>
               (case descriptors_list cached of
                  None \<Rightarrow> True
                | Some serializedDescriptors \<Rightarrow>
                    length templateNames \<noteq> length serializedDescriptors)))"

subsection \<open>Confidence\<close>

text \<open>
  The ratio test on the distances from one query descriptor to the descriptors of a
  template: the nearest and the second nearest are the first two of the distances in
  ascending order. The distances are the single-precision Euclidean distances the
  matcher reports.
\<close>

definition distances :: "byte list \<Rightarrow> Mat \<Rightarrow> real list" where
  "distances d t = map (\<lambda>r. float32_sqrt (normL2Sqr d r)) (descriptors t)"

definition passes_ratio_test :: "real list \<Rightarrow> bool" where
  "passes_ratio_test ds =
     (case sort ds of
        d1 # d2 # _ \<Rightarrow> d1 < 0.75 * d2
      | _ \<Rightarrow> False)"

definition confidence_of :: "Mat \<Rightarrow> Mat \<Rightarrow> nat" where
  "confidence_of q t =
     length (filter (\<lambda>d. passes_ratio_test (distances d t)) (descriptors q))"

text \<open>The same with Hamming distances, the number of differing bits.\<close>

definition bit_count :: "byte \<Rightarrow> nat" where
  "bit_count w = length (filter (bit w) [0..<8])"

definition hamming :: "byte list \<Rightarrow> byte list \<Rightarrow> nat" where
  "hamming a b = sum_list (map (\<lambda>(x, y). bit_count (x XOR y)) (zip a b))"

definition hamming_distances :: "byte list \<Rightarrow> Mat \<Rightarrow> nat list" where
  "hamming_distances d t = map (hamming d) (descriptors t)"

definition passes_hamming_ratio_test :: "nat list \<Rightarrow> bool" where
  "passes_hamming_ratio_test hs =
     (case sort hs of
        h1 # h2 # _ \<Rightarrow> real h1 < 0.75 * real h2
      | _ \<Rightarrow> False)"

definition hamming_confidence :: "Mat \<Rightarrow> Mat \<Rightarrow> nat" where
  "hamming_confidence q t =
     length (filter (\<lambda>d. passes_hamming_ratio_test (hamming_distances d t)) (descriptors q))"

text \<open>
  A template can be compared with a query of 8-bit descriptors when it is not empty, is
  of type \<^verbatim>\<open>CV_8U\<close>, has the query's width and has fewer than \<open>2\<^sup>1\<^sup>8\<close>
  descriptors. The included templates of a
  category are the comparable ones whose confidence reaches the threshold, in
  enumeration order.
\<close>

definition comparable :: "Mat \<Rightarrow> Mat \<Rightarrow> bool" where
  "comparable q t =
     (Mat_empty t = False \<and> mtype t = CV_8U \<and> cols t = cols q \<and> rows t < 262144)"

definition meets :: "Mat \<Rightarrow> int \<Rightarrow> Mat \<Rightarrow> bool" where
  "meets q threshold t = (comparable q t \<and> threshold \<le> int (confidence_of q t))"

definition included :: "Mat \<Rightarrow> int \<Rightarrow> Mat js_object \<Rightarrow> match_result list" where
  "included q threshold ts =
     map (\<lambda>(name, t). \<lparr>id' = name, confidence = confidence_of q t\<rparr>)
       (filter (\<lambda>(name, t). meets q threshold t) ts)"

definition handed_to_matcher :: "Mat js_object \<Rightarrow> string list" where
  "handed_to_matcher ts =
     map fst (filter (\<lambda>(name, t). Mat_empty t = False \<and> mtype t = CV_8U) ts)"

section \<open>Example data\<close>

text \<open>
  A small cache directory. The artifact of \<^verbatim>\<open>chara\<close> has one usable entry (a blob
  of 32 zero bytes), one blob that decodes to three bytes and one \<^verbatim>\<open>null\<close> blob;
  the artifact of \<^verbatim>\<open>weapon/main\<close> has arrays of different lengths; that of
  \<^verbatim>\<open>weapon/normal\<close> is well formed and has no usable entry; the artifact of
  \<^verbatim>\<open>priority/weapon/normal\<close> has a template of two descriptors (32 zero bytes, then
  the byte 255 and 31 zero bytes) and a blob that does not decode; no other file exists.
\<close>

definition zero_blob :: string where
  "zero_blob = ''AAAAAAAAAAAAAAAAAAAAAAAAAAAAAAAAAAAAAAAAAAA=''"

definition zero_descriptor :: Mat where
  "zero_descriptor = \<lparr>rows = 1, cols = 32, mtype = 0, data = replicate 32 0\<rparr>"

definition two_descriptor_blob :: string where
  "two_descriptor_blob =
     ''AAAAAAAAAAAAAAAAAAAAAAAAAAAAAAAAAAAAAAAAAAD/AAAAAAAAAAAAAAAAAAAAAAAAAAAAAAAAAAAAAAAAAA==''"

definition example_fs :: filesystem where
  "example_fs path =
     (if path = ''chara_features.json''
      then Parsed \<lparr>template_names = Some [''lyria'', ''vyrn'', ''katalina''],
                   descriptors_list = Some [Some zero_blob, Some ''AAAA'', None]\<rparr>
      else if path = ''weapon/main_features.json''
      then Parsed \<lparr>template_names = Some [''sword''], descriptors_list = Some []\<rparr>
      else if path = ''weapon/normal_features.json''
      then Parsed \<lparr>template_names = Some [''dagger''], descriptors_list = Some [None]\<rparr>
      else if path = ''priority/weapon/normal_features.json''
      then Parsed \<lparr>template_names = Some [''colossus'', ''broken''],
                   descriptors_list = Some [Some two_descriptor_blob, Some ''AAAA'']\<rparr>
      else ENOENT)"

text \<open>
  Descriptors for matching: a row is one leading byte followed by 31 zero bytes, so the
  Euclidean distance of two rows is the difference of their leading bytes.
\<close>

definition row_of :: "byte \<Rightarrow> byte list" where
  "row_of b = b # replicate 31 0"

definition gap :: "byte \<Rightarrow> byte \<Rightarrow> nat" where
  "gap a b = nat \<bar>int (unat a) - int (unat b)\<bar>"

definition mat_of :: "byte list \<Rightarrow> Mat" where
  "mat_of bs = matFromArray (length bs) 32 CV_8U (concat (map row_of bs))"

definition no_conversion :: "Mat \<Rightarrow> Mat option" where
  "no_conversion m = None"

definition example_query :: Mat where
  "example_query = mat_of [0, 100]"

definition example_templates :: "Mat js_object" where
  "example_templates =
     [(''bow'', mat_of [0, 20]), (''staff'', mat_of [50, 60]), (''axe'', mat_of [0, 100]),
      (''void'', new_Mat), (''spear'', mat_of [0, 20])]"

definition example_state :: state where
  "example_state =
     \<lparr>templateFeatures = [(''weapon/main'', example_templates), (''chara'', [])],
      artifact_reads = []\<rparr>"

text \<open>
  Ten zero descriptors as a query, and a template whose two descriptors differ from zero
  in the bits of 3 and of 4: Hamming distances 2 and 1, Euclidean distances 3 and 4.
\<close>

definition ten_zero_descriptors :: Mat where
  "ten_zero_descriptors = mat_of [0, 0, 0, 0, 0, 0, 0, 0, 0, 0]"

definition near_template :: Mat where
  "near_template = mat_of [3, 4]"

definition near_state :: state where
  "near_state =
     \<lparr>templateFeatures = [(''chara'', [(''lyria'', near_template)])], artifact_reads = []\<rparr>"

text \<open>
  Descriptors at the margin of the ratio test, given by their leading bytes and filled
  up with zero bytes. From the zero descriptor the two descriptors of
  \<open>margin_template\<close> are at the squared distances 18 and 32, whose exact roots are in
  the ratio 0.75; the two of \<open>wide_margin_template\<close> are at the squared distances 348611
  and 619753, whose exact roots are in a ratio just below 0.75.
\<close>

definition padded :: "byte list \<Rightarrow> byte list" where
  "padded bs = bs @ replicate (32 - length bs) 0"

definition mat_of_rows :: "byte list list \<Rightarrow> Mat" where
  "mat_of_rows rs = matFromArray (length rs) 32 CV_8U (concat rs)"

definition margin_template :: Mat where
  "margin_template = mat_of_rows [padded [3, 3], padded [4, 4]]"

definition wide_margin_template :: Mat where
  "wide_margin_template =
     mat_of_rows
       [padded [255, 255, 255, 255, 255, 153, 8, 3, 2],
        padded [255, 255, 255, 255, 255, 255, 255, 255, 255, 185, 17, 3, 2, 1]]"

definition margin_templates :: "Mat js_object" where
  "margin_templates =
     [(''katalina'', wide_margin_template), (''lyria'', margin_template),
      (''vyrn'', mat_of [0, 100])]"

definition margin_state :: state where
  "margin_state = \<lparr>templateFeatures = [(''chara'', margin_templates)], artifact_reads = []\<rparr>"

section \<open>Properties of the codec\<close>

lemma concat_rows:
  "concat (map (\<lambda>i. take c (drop (i * c) xs)) [0..<r]) = take (r * c) xs"
proof (induction r)
  case 0
  then show ?case by simp
next
  case (Suc r)
  have "take (r * c) xs @ take c (drop (r * c) xs) = take (r * c + c) xs"
    by (simp add: take_add)
  with Suc show ?case by (simp add: add.commute)
qed

lemma descriptors_matFromArray_concat:
  "length buf = r * c \<Longrightarrow> concat (descriptors (matFromArray r c t buf)) = buf"
  by (simp add: descriptors_def matFromArray_def Mat_row_def [abs_def] concat_rows)

lemma descriptors_matFromArray_width:
  assumes "length buf = r * c"
  shows "list_all (\<lambda>d. length d = c) (descriptors (matFromArray r c t buf))"
proof -
  have "length (take c (drop (i * c) buf)) = c" if "i < r" for i
  proof -
    from that have "Suc i \<le> r" by simp
    then have "Suc i * c \<le> r * c" by (rule mult_le_mono1)
    with assms show ?thesis by simp
  qed
  then show ?thesis
    by (simp add: descriptors_def matFromArray_def Mat_row_def [abs_def] list_all_iff)
qed

text \<open>
  C5, as the code has it. \<^verbatim>\<open>deserializeDescriptors\<close> fails exactly when the number of
  bytes the lenient decoder produces is not a multiple of 32, and the error carries that
  number. Otherwise it returns a matrix of type \<^verbatim>\<open>CV_8U\<close> that is empty exactly
  when no byte was produced and whose rows are the buffer cut into (length / 32)
  descriptors of 32 bytes each.
\<close>

theorem deserializeDescriptors_lenient:
  "(case deserializeDescriptors s of
      Inl e \<Rightarrow>
        length (Buffer_from_base64 s) mod 32 \<noteq> 0
        \<and> e = Failed_to_deserialize (length (Buffer_from_base64 s))
    | Inr m \<Rightarrow>
        length (Buffer_from_base64 s) mod 32 = 0
        \<and> Mat_empty m = (Buffer_from_base64 s = [])
        \<and> mtype m = CV_8U
        \<and> length (descriptors m) = length (Buffer_from_base64 s) div 32
        \<and> list_all (\<lambda>d. length d = 32) (descriptors m)
        \<and> concat (descriptors m) = Buffer_from_base64 s)"
proof -
  define buf where "buf = Buffer_from_base64 s"
  consider (bad) "length buf mod 32 \<noteq> 0"
    | (none) "buf = []"
    | (some) "length buf mod 32 = 0" "buf \<noteq> []"
    by blast
  then show ?thesis
  proof cases
    case bad
    then show ?thesis
      by (simp add: deserializeDescriptors_def descriptorSize_def buf_def [symmetric])
  next
    case none
    then show ?thesis
      by (simp add: deserializeDescriptors_def descriptorSize_def buf_def [symmetric]
          new_Mat_def Mat_empty_def descriptors_def)
  next
    case some
    then have len: "length buf = (length buf div 32) * 32" by auto
    have pos: "0 < length buf div 32"
    proof (rule ccontr)
      assume "\<not> 0 < length buf div 32"
      with len have "length buf = 0" by simp
      with some show False by simp
    qed
    have d: "deserializeDescriptors s = Inr (matFromArray (length buf div 32) 32 CV_8U buf)"
      using some pos
      by (simp add: deserializeDescriptors_def descriptorSize_def buf_def [symmetric] Let_def)
    show ?thesis
      unfolding d buf_def [symmetric]
      using some pos descriptors_matFromArray_concat [OF len, of CV_8U]
        descriptors_matFromArray_width [OF len, of CV_8U]
      by (simp add: matFromArray_def Mat_empty_def descriptors_def)
  qed
qed

text \<open>
  C5, as it is stated, asks for a failure whenever the encoding itself is invalid. The
  one-character text \<^verbatim>\<open>!\<close> is not base64, and decoding it succeeds with the empty
  matrix: the decoder skips the character and the empty buffer passes the length check.
\<close>

theorem deserializeDescriptors_invalid_encoding_accepted:
  "base64_wellformed ''!'' = False \<and> deserializeDescriptors ''!'' = Inr new_Mat
   \<and> Mat_empty new_Mat"
  by (simp add: deserializeDescriptors_def Buffer_from_base64_def unbase64_def
      base64_wellformed_def descriptorSize_def new_Mat_def Mat_empty_def)

section \<open>Properties of the cache\<close>

subsection \<open>Objects\<close>

lemma set_insert_index: "set (insert_index i k v obj) = insert (k, v) (set obj)"
  by (induction obj) (auto split: option.splits if_splits)

lemma map_of_insert_index:
  "k \<notin> fst ` set obj \<Longrightarrow> map_of (insert_index i k v obj) = (map_of obj)(k \<mapsto> v)"
  by (induction obj) (auto split: option.splits simp: fun_eq_iff)

lemma distinct_insert_index:
  "k \<notin> fst ` set obj \<Longrightarrow> distinct (map fst obj)
     \<Longrightarrow> distinct (map fst (insert_index i k v obj))"
  by (induction obj) (auto split: option.splits simp: set_insert_index image_iff)

lemma map_of_replace_other:
  "x \<noteq> k \<Longrightarrow>
     map_of (map (\<lambda>(k', v'). if k' = k then (k', v) else (k', v')) obj) x = map_of obj x"
  by (induction obj) auto

lemma map_of_replace_same:
  "k \<in> fst ` set obj \<Longrightarrow>
     map_of (map (\<lambda>(k', v'). if k' = k then (k', v) else (k', v')) obj) k = Some v"
  by (induction obj) auto

lemma map_fst_replace:
  "map fst (map (\<lambda>(k', v'). if k' = k then (k', v) else (k', v')) obj) = map fst obj"
  by (induction obj) auto

lemma map_of_js_set:
  "k \<noteq> ''__proto__'' \<Longrightarrow> map_of (js_set obj k v) = (map_of obj)(k \<mapsto> v)"
proof (cases "k \<in> fst ` set obj")
  case True
  assume "k \<noteq> ''__proto__''"
  with True show ?thesis
    by (auto simp: js_set_def map_of_replace_same map_of_replace_other fun_eq_iff)
next
  case False
  assume "k \<noteq> ''__proto__''"
  from False have none: "map_of obj k = None"
    by (simp add: map_of_eq_None_iff)
  from False \<open>k \<noteq> ''__proto__''\<close> show ?thesis
    by (auto simp: js_set_def map_of_insert_index fun_eq_iff map_add_def none
        split: option.splits)
qed

lemma js_get_js_set_same:
  "k \<noteq> ''__proto__'' \<Longrightarrow> js_get (js_set obj k v) k = Some v"
  by (simp add: js_get_def map_of_js_set)

lemma js_get_js_set_other:
  "k' \<noteq> k \<Longrightarrow> js_get (js_set obj k v) k' = js_get obj k'"
proof (cases "k = ''__proto__''")
  case True
  then show ?thesis by (simp add: js_set_def)
next
  case False
  assume "k' \<noteq> k"
  with False show ?thesis by (simp add: js_get_def map_of_js_set)
qed

lemma distinct_js_set:
  "distinct (map fst obj) \<Longrightarrow> distinct (map fst (js_set obj k v))"
  unfolding js_set_def
  by (auto simp: map_fst_replace distinct_insert_index split: option.splits simp del: map_map)

subsection \<open>The loader\<close>

lemma ordinary_key_not_proto: "ordinary_key k \<Longrightarrow> k \<noteq> ''__proto__''"
  by (auto simp: ordinary_key_def Object_prototype_keys_def)

lemma deserializeDescriptors_Nil: "deserializeDescriptors [] = Inr new_Mat"
  by (simp add: deserializeDescriptors_def Buffer_from_base64_def descriptorSize_def)

lemma Mat_empty_new_Mat: "Mat_empty new_Mat"
  by (simp add: Mat_empty_def new_Mat_def)

lemma loadFeaturesFromCache_loaded:
  "has_features s cat \<Longrightarrow> loadFeaturesFromCache fs s cat = s"
  by (simp add: loadFeaturesFromCache_def)

lemma artifact_reads_store_template:
  "artifact_reads (store_template s cat name m) = artifact_reads s"
  by (simp add: store_template_def split: option.splits)

lemma artifact_reads_load_entries:
  "artifact_reads (load_entries s cat ps) = artifact_reads s"
  by (induction s cat ps rule: load_entries.induct)
    (auto simp: artifact_reads_store_template split: option.splits sum.splits)

lemma artifact_reads_ensure_object:
  "artifact_reads (ensure_object s cat) = artifact_reads s"
  by (simp add: ensure_object_def split: option.splits)

lemma artifact_reads_loadFeaturesFromCache:
  "has_features s cat = False \<Longrightarrow>
     artifact_reads (loadFeaturesFromCache fs s cat) = artifact_reads s @ [cacheFileName cat]"
  by (simp add: loadFeaturesFromCache_def Let_def artifact_reads_load_entries
      artifact_reads_ensure_object split: artifact.splits option.splits)

lemma js_get_ensure_object:
  assumes "ordinary_key cat" "has_features s cat = False"
  shows "js_get (templateFeatures (ensure_object s cat)) cat = Some []"
proof (cases "js_get (templateFeatures s) cat")
  case None
  then show ?thesis
    using assms(1) by (simp add: ensure_object_def js_get_js_set_same ordinary_key_not_proto)
next
  case (Some obj)
  with assms(2) have "obj = []" by (simp add: has_features_def)
  with Some show ?thesis by (simp add: ensure_object_def)
qed

lemma ensure_object_present:
  "js_get (templateFeatures s) cat = Some obj \<Longrightarrow> ensure_object s cat = s"
  by (simp add: ensure_object_def)

lemma js_get_store_template:
  "js_get (templateFeatures s) cat = Some obj \<Longrightarrow> cat \<noteq> ''__proto__'' \<Longrightarrow>
     js_get (templateFeatures (store_template s cat name m)) cat = Some (js_set obj name m)"
  by (simp add: store_template_def js_get_js_set_same)

lemma js_get_load_entries:
  "js_get (templateFeatures s) cat = Some obj \<Longrightarrow> cat \<noteq> ''__proto__'' \<Longrightarrow>
     js_get (templateFeatures (load_entries s cat ps)) cat =
       Some (foldl (\<lambda>obj (name, m). js_set obj name m) obj (usable_entries ps))"
proof (induction ps arbitrary: s obj)
  case Nil
  then show ?case by (simp add: usable_entries_def map_filter_simps)
next
  case (Cons p ps)
  obtain name desStr where p: "p = (name, desStr)" by (cases p)
  show ?case
  proof (cases "decoded_entry p")
    case None
    then have "load_entries s cat (p # ps) = load_entries s cat ps"
      unfolding p
      by (cases desStr)
        (auto simp: deserializeDescriptors_Nil Mat_empty_new_Mat split: sum.splits if_splits)
    moreover from None have "usable_entries (p # ps) = usable_entries ps"
      by (simp add: usable_entries_def map_filter_simps)
    ultimately show ?thesis using Cons by simp
  next
    case (Some e)
    then obtain str m where str: "desStr = Some str" "deserializeDescriptors str = Inr m"
      "Mat_empty m = False" "e = (name, m)"
      unfolding p by (cases desStr) (auto split: sum.splits if_splits)
    from str have "str \<noteq> []"
      using deserializeDescriptors_Nil Mat_empty_new_Mat by auto
    with str have step: "load_entries s cat (p # ps) =
        load_entries (store_template s cat name m) cat ps"
      unfolding p by simp
    from Some str have us: "usable_entries (p # ps) = (name, m) # usable_entries ps"
      by (simp add: usable_entries_def map_filter_simps)
    have "js_get (templateFeatures (store_template s cat name m)) cat = Some (js_set obj name m)"
      using Cons.prems by (rule js_get_store_template)
    from Cons.IH [OF this Cons.prems(2)] show ?thesis
      by (simp add: step us)
  qed
qed

lemma map_of_foldl_js_set:
  "list_all (\<lambda>e. fst e \<noteq> ''__proto__'') es \<Longrightarrow>
     map_of (foldl (\<lambda>obj (name, m). js_set obj name m) obj es) = map_of obj ++ map_of (rev es)"
proof (induction es arbitrary: obj)
  case Nil
  then show ?case by simp
next
  case (Cons e es)
  obtain name m where e: "e = (name, m)" by (cases e)
  from Cons.prems have name: "name \<noteq> ''__proto__''" and rest: "list_all (\<lambda>e. fst e \<noteq> ''__proto__'') es"
    by (simp_all add: e)
  have "map_of (foldl (\<lambda>obj (name, m). js_set obj name m) obj (e # es)) =
      map_of (js_set obj name m) ++ map_of (rev es)"
    using Cons.IH [OF rest] by (simp add: e)
  also have "\<dots> = (map_of obj)(name \<mapsto> m) ++ map_of (rev es)"
    by (simp add: map_of_js_set name)
  also have "\<dots> = map_of obj ++ map_of (rev (e # es))"
    by (auto simp: e fun_eq_iff map_add_def split: option.splits)
  finally show ?case .
qed

lemma distinct_foldl_js_set:
  "distinct (map fst obj) \<Longrightarrow>
     distinct (map fst (foldl (\<lambda>obj (name, m). js_set obj name m) obj es))"
  by (induction es arbitrary: obj) (auto simp: distinct_js_set)

lemma fst_usable_entries:
  "map fst (usable_entries ps) = map fst (filter (\<lambda>p. decoded_entry p \<noteq> None) ps)"
proof (induction ps)
  case Nil
  then show ?case by (simp add: usable_entries_def map_filter_simps)
next
  case (Cons p ps)
  obtain name desStr where p: "p = (name, desStr)" by (cases p)
  from Cons show ?case
    unfolding p
    by (cases desStr)
      (auto simp: usable_entries_def map_filter_simps split: sum.splits option.splits)
qed

lemma has_features_entries: "has_features s cat = (category_entries s cat \<noteq> [])"
  by (simp add: has_features_def category_entries_def split: option.splits)

lemma has_features_reads [simp]:
  "has_features (s\<lparr>artifact_reads := r\<rparr>) cat = has_features s cat"
  by (simp add: has_features_def)

lemma loadFeaturesFromCache_fails:
  assumes "ordinary_key cat" "has_features s cat = False" "load_fails fs cat"
  shows "loadFeaturesFromCache fs s cat =
    (ensure_object s cat)\<lparr>artifact_reads := artifact_reads s @ [cacheFileName cat]\<rparr>"
proof -
  let ?s2 = "(ensure_object s cat)\<lparr>artifact_reads := artifact_reads s @ [cacheFileName cat]\<rparr>"
  have "js_get (templateFeatures ?s2) cat = Some []"
    using js_get_ensure_object [OF assms(1,2)] by simp
  then have "ensure_object ?s2 cat = ?s2"
    by (rule ensure_object_present)
  with assms(2,3) show ?thesis
    by (simp add: loadFeaturesFromCache_def load_fails_def Let_def artifact_reads_ensure_object
        split: artifact.splits option.splits)
qed

lemma js_get_loadFeaturesFromCache_parsed:
  assumes "ordinary_key cat" "has_features s cat = False"
    and "fs (cacheFileName cat) = Parsed cached"
    and "template_names cached = Some names" "descriptors_list cached = Some blobs"
    and "length names = length blobs"
  shows "js_get (templateFeatures (loadFeaturesFromCache fs s cat)) cat =
    Some (foldl (\<lambda>obj (name, m). js_set obj name m) [] (usable_entries (zip names blobs)))"
proof -
  let ?s2 = "(ensure_object s cat)\<lparr>artifact_reads := artifact_reads s @ [cacheFileName cat]\<rparr>"
  have "loadFeaturesFromCache fs s cat = load_entries ?s2 cat (zip names blobs)"
    using assms(2-6)
    by (simp add: loadFeaturesFromCache_def Let_def artifact_reads_ensure_object)
  moreover have "js_get (templateFeatures ?s2) cat = Some []"
    using js_get_ensure_object [OF assms(1,2)] by simp
  ultimately show ?thesis
    using js_get_load_entries [of ?s2 cat "[]" "zip names blobs"] assms(1)
    by (simp add: ordinary_key_not_proto)
qed

lemma matchEquipment_state:
  "fst (snd (matchEquipment fs convertTo s q cat threshold top_n earlyReturn)) =
     (if has_features s cat then s else loadFeaturesFromCache fs s cat)"
  by (simp add: matchEquipment_def Let_def split: option.splits prod.splits)

lemma matchEquipment_no_features:
  "has_features s cat = False \<Longrightarrow> has_features (loadFeaturesFromCache fs s cat) cat = False \<Longrightarrow>
     matchEquipment fs convertTo s q cat threshold top_n earlyReturn =
       ([], loadFeaturesFromCache fs s cat, [])"
  by (simp add: matchEquipment_def)

subsection \<open>The example cache, loaded\<close>

lemma replicate_32:
  "replicate 32 x = [x, x, x, x, x, x, x, x, x, x, x, x, x, x, x, x,
                     x, x, x, x, x, x, x, x, x, x, x, x, x, x, x, x]"
  by (simp add: numeral_eq_Suc)

lemma example_load_chara:
  "loadFeaturesFromCache example_fs init_state ''chara'' =
     \<lparr>templateFeatures =
        [(''summon/party_main'', []), (''summon/party_sub'', []), (''weapon/main'', []),
         (''weapon/normal'', []), (''chara'', [(''lyria'', zero_descriptor)])],
      artifact_reads = [''chara_features.json'']\<rparr>"
  by (simp add: loadFeaturesFromCache_def has_features_def init_state_def
      templateFeatures_init_def js_get_def ensure_object_def cacheFileName_def example_fs_def
      store_template_def js_set_def array_index_def is_digit_def
      deserializeDescriptors_def Buffer_from_base64_def unbase64_def descriptorSize_def
      zero_blob_def zero_descriptor_def matFromArray_def CV_8U_def Mat_empty_def new_Mat_def
      replicate_32)

lemma example_load_weapon_normal:
  "loadFeaturesFromCache example_fs init_state ''weapon/normal'' =
     init_state\<lparr>artifact_reads := [''weapon/normal_features.json'']\<rparr>"
  by (simp add: loadFeaturesFromCache_def has_features_def init_state_def
      templateFeatures_init_def js_get_def ensure_object_def cacheFileName_def example_fs_def)

lemma example_load_weapon_normal_again:
  "loadFeaturesFromCache example_fs
     (init_state\<lparr>artifact_reads := [''weapon/normal_features.json'']\<rparr>) ''weapon/normal'' =
     init_state\<lparr>artifact_reads :=
       [''weapon/normal_features.json'', ''weapon/normal_features.json'']\<rparr>"
  by (simp add: loadFeaturesFromCache_def has_features_def init_state_def
      templateFeatures_init_def js_get_def ensure_object_def cacheFileName_def example_fs_def)

lemma example_missing_fails: "load_fails example_fs ''summon/party_sub''"
  by (simp add: load_fails_def example_fs_def cacheFileName_def)

lemma example_malformed_fails: "load_fails example_fs ''weapon/main''"
  by (simp add: load_fails_def example_fs_def cacheFileName_def)

lemma init_state_no_features: "has_features init_state cat = False"
  by (simp add: has_features_def init_state_def templateFeatures_init_def js_get_def)

lemma ordinary_route_categories: "list_all ordinary_key route_categories"
  by (simp add: ordinary_key_def route_categories_def Object_prototype_keys_def)

subsection \<open>Lazy loading\<close>

lemma loadFeaturesFromCache_funpow:
  assumes "has_features (loadFeaturesFromCache fs s cat) cat"
  shows "((\<lambda>s. loadFeaturesFromCache fs s cat) ^^ Suc n) s = loadFeaturesFromCache fs s cat"
proof (induction n)
  case 0
  then show ?case by simp
next
  case (Suc n)
  have "((\<lambda>s. loadFeaturesFromCache fs s cat) ^^ Suc (Suc n)) s =
      loadFeaturesFromCache fs (((\<lambda>s. loadFeaturesFromCache fs s cat) ^^ Suc n) s) cat"
    by simp
  also have "\<dots> = loadFeaturesFromCache fs (loadFeaturesFromCache fs s cat) cat"
    by (simp only: Suc)
  also have "\<dots> = loadFeaturesFromCache fs s cat"
    using assms by (rule loadFeaturesFromCache_loaded)
  finally show ?case .
qed

lemma loadFeaturesFromCache_keeps_features:
  "has_features s cat \<Longrightarrow> ((\<lambda>s. loadFeaturesFromCache fs s cat) ^^ n) s = s"
  by (induction n) (simp_all add: loadFeaturesFromCache_loaded)

lemma artifact_reads_load:
  "artifact_reads (loadFeaturesFromCache fs s cat) =
     (if has_features s cat then artifact_reads s else artifact_reads s @ [cacheFileName cat])"
  by (simp add: loadFeaturesFromCache_loaded artifact_reads_loadFeaturesFromCache)

lemma artifact_reads_funpow:
  "artifact_reads (((\<lambda>s. loadFeaturesFromCache fs s cat) ^^ n) s) =
     artifact_reads s @
       replicate
         (length (filter (\<lambda>k. has_features (((\<lambda>s. loadFeaturesFromCache fs s cat) ^^ k) s) cat = False)
            [0..<n]))
         (cacheFileName cat)"
  by (induction n) (simp_all add: artifact_reads_load replicate_append_same)

lemma loadFeaturesFromCache_no_features_before:
  "has_features (loadFeaturesFromCache fs s cat) cat = False \<Longrightarrow> has_features s cat = False"
  by (cases "has_features s cat") (simp_all add: loadFeaturesFromCache_loaded)

lemma js_get_loadFeaturesFromCache_same:
  assumes "ordinary_key cat" "has_features s cat = False" "has_features s' cat = False"
  shows "js_get (templateFeatures (loadFeaturesFromCache fs s cat)) cat =
    js_get (templateFeatures (loadFeaturesFromCache fs s' cat)) cat"
proof (cases "load_fails fs cat")
  case True
  have "js_get (templateFeatures (loadFeaturesFromCache fs t cat)) cat = Some []"
    if "has_features t cat = False" for t
    unfolding loadFeaturesFromCache_fails [OF assms(1) that True]
    using js_get_ensure_object [OF assms(1) that] by simp
  with assms(2,3) show ?thesis by simp
next
  case False
  then obtain cached names blobs where
    f: "fs (cacheFileName cat) = Parsed cached" "template_names cached = Some names"
      "descriptors_list cached = Some blobs" "length names = length blobs"
    by (auto simp: load_fails_def split: artifact.splits option.splits)
  show ?thesis
    unfolding js_get_loadFeaturesFromCache_parsed [where fs = fs, OF assms(1,2) f]
      js_get_loadFeaturesFromCache_parsed [where fs = fs, OF assms(1,3) f]
    by (rule refl)
qed

lemma category_entries_funpow:
  assumes "ordinary_key cat"
  shows "category_entries (((\<lambda>s. loadFeaturesFromCache fs s cat) ^^ Suc n) s) cat =
    category_entries (loadFeaturesFromCache fs s cat) cat"
proof (cases "has_features (loadFeaturesFromCache fs s cat) cat")
  case True
  then have "((\<lambda>s. loadFeaturesFromCache fs s cat) ^^ Suc n) s = loadFeaturesFromCache fs s cat"
    by (rule loadFeaturesFromCache_funpow)
  then show ?thesis by (simp only:)
next
  case False
  then have nf: "has_features s cat = False"
    using loadFeaturesFromCache_no_features_before [of fs s cat] by simp
  show ?thesis
  proof (induction n)
    case 0
    then show ?case by simp
  next
    case (Suc n)
    let ?t = "((\<lambda>s. loadFeaturesFromCache fs s cat) ^^ Suc n) s"
    from Suc False have "has_features ?t cat = False"
      by (simp only: has_features_entries)
    then have "js_get (templateFeatures (loadFeaturesFromCache fs ?t cat)) cat =
        js_get (templateFeatures (loadFeaturesFromCache fs s cat)) cat"
      using assms nf by (intro js_get_loadFeaturesFromCache_same)
    then have "category_entries (loadFeaturesFromCache fs ?t cat) cat =
        category_entries (loadFeaturesFromCache fs s cat) cat"
      by (simp add: category_entries_def)
    then show ?case by simp
  qed
qed

text \<open>
  C1, as the code has it. A call of \<^verbatim>\<open>loadFeaturesFromCache\<close> goes to the file system
  exactly when the category has no entry at that moment, and the state a match leaves is
  the state this call leaves. So of \<open>n\<close> calls in a row, those that find the category
  without an entry read the artifact, each once, and the others read nothing. When the
  first call leaves at least one entry, any number of further calls return the same state:
  the same entries and no further read. When it leaves none, the category had none
  before, and the next call reads the artifact again. In both cases the category holds
  the same entries after every call (for a category that is no inherited property
  name).
\<close>

theorem loadFeaturesFromCache_reads_when_no_entry:
  "artifact_reads (loadFeaturesFromCache fs s cat) =
     (if category_entries s cat = [] then artifact_reads s @ [cacheFileName cat]
      else artifact_reads s)
   \<and> fst (snd (matchEquipment fs convertTo s q cat threshold top_n earlyReturn)) =
       loadFeaturesFromCache fs s cat
   \<and> artifact_reads (((\<lambda>s. loadFeaturesFromCache fs s cat) ^^ n) s) =
       artifact_reads s @
         replicate
           (length (filter
              (\<lambda>k. category_entries (((\<lambda>s. loadFeaturesFromCache fs s cat) ^^ k) s) cat = [])
              [0..<n]))
           (cacheFileName cat)
   \<and> (if category_entries (loadFeaturesFromCache fs s cat) cat = []
       then category_entries s cat = []
          \<and> artifact_reads (loadFeaturesFromCache fs (loadFeaturesFromCache fs s cat) cat) =
              artifact_reads s @ [cacheFileName cat, cacheFileName cat]
       else ((\<lambda>s. loadFeaturesFromCache fs s cat) ^^ Suc n) s = loadFeaturesFromCache fs s cat)
   \<and> (ordinary_key cat \<longrightarrow>
        category_entries (((\<lambda>s. loadFeaturesFromCache fs s cat) ^^ Suc n) s) cat =
          category_entries (loadFeaturesFromCache fs s cat) cat)"
proof (intro conjI impI)
  show "artifact_reads (loadFeaturesFromCache fs s cat) =
      (if category_entries s cat = [] then artifact_reads s @ [cacheFileName cat]
       else artifact_reads s)"
    by (simp add: artifact_reads_load has_features_entries)
  show "fst (snd (matchEquipment fs convertTo s q cat threshold top_n earlyReturn)) =
      loadFeaturesFromCache fs s cat"
    by (simp add: matchEquipment_state loadFeaturesFromCache_loaded)
  show "artifact_reads (((\<lambda>s. loadFeaturesFromCache fs s cat) ^^ n) s) =
      artifact_reads s @
        replicate
          (length (filter
             (\<lambda>k. category_entries (((\<lambda>s. loadFeaturesFromCache fs s cat) ^^ k) s) cat = [])
             [0..<n]))
          (cacheFileName cat)"
    using artifact_reads_funpow [where fs = fs and cat = cat and n = n and s = s]
    by (simp add: has_features_entries)
  show "if category_entries (loadFeaturesFromCache fs s cat) cat = []
      then category_entries s cat = []
         \<and> artifact_reads (loadFeaturesFromCache fs (loadFeaturesFromCache fs s cat) cat) =
             artifact_reads s @ [cacheFileName cat, cacheFileName cat]
      else ((\<lambda>s. loadFeaturesFromCache fs s cat) ^^ Suc n) s = loadFeaturesFromCache fs s cat"
  proof (cases "has_features (loadFeaturesFromCache fs s cat) cat")
    case True
    then have "((\<lambda>s. loadFeaturesFromCache fs s cat) ^^ Suc n) s =
        loadFeaturesFromCache fs s cat"
      by (rule loadFeaturesFromCache_funpow)
    with True show ?thesis
      by (simp only: has_features_entries if_False)
  next
    case False
    then have nf: "has_features s cat = False"
      using loadFeaturesFromCache_no_features_before [of fs s cat] by simp
    from False nf have "artifact_reads
        (loadFeaturesFromCache fs (loadFeaturesFromCache fs s cat) cat) =
        artifact_reads s @ [cacheFileName cat, cacheFileName cat]"
      by (simp add: artifact_reads_load)
    with False nf show ?thesis
      by (simp add: has_features_entries)
  qed
next
  assume "ordinary_key cat"
  then show "category_entries (((\<lambda>s. loadFeaturesFromCache fs s cat) ^^ Suc n) s) cat =
      category_entries (loadFeaturesFromCache fs s cat) cat"
    by (rule category_entries_funpow)
qed

lemma example_chara_has_features:
  "has_features (loadFeaturesFromCache example_fs init_state ''chara'') ''chara''"
  by (simp add: example_load_chara has_features_def js_get_def)

lemma example_load_weapon_normal_reads:
  "loadFeaturesFromCache example_fs (init_state\<lparr>artifact_reads := r\<rparr>) ''weapon/normal'' =
     init_state\<lparr>artifact_reads := r @ [''weapon/normal_features.json'']\<rparr>"
  by (simp add: loadFeaturesFromCache_def has_features_def init_state_def
      templateFeatures_init_def js_get_def ensure_object_def cacheFileName_def example_fs_def)

lemma example_weapon_normal_three_loads:
  "((\<lambda>s. loadFeaturesFromCache example_fs s ''weapon/normal'') ^^ k) init_state =
     init_state\<lparr>artifact_reads := replicate k ''weapon/normal_features.json''\<rparr>"
proof (induction k)
  case 0
  then show ?case by (simp add: init_state_def)
next
  case (Suc k)
  then show ?case
    by (simp add: example_load_weapon_normal_reads replicate_append_same)
qed

theorem loadFeaturesFromCache_reads_when_no_entry_witness:
  "((\<lambda>s. loadFeaturesFromCache example_fs s ''chara'') ^^ 3) init_state =
       loadFeaturesFromCache example_fs init_state ''chara''
   \<and> artifact_reads (((\<lambda>s. loadFeaturesFromCache example_fs s ''chara'') ^^ 3) init_state) =
       [''chara_features.json'']
   \<and> js_get (templateFeatures (loadFeaturesFromCache example_fs init_state ''chara'')) ''chara'' =
       Some [(''lyria'', zero_descriptor)]
   \<and> fst (snd (matchEquipment example_fs no_conversion init_state zero_descriptor ''chara'' 10 3
         False)) = loadFeaturesFromCache example_fs init_state ''chara''
   \<and> category_entries (loadFeaturesFromCache example_fs init_state ''weapon/normal'')
       ''weapon/normal'' = []
   \<and> artifact_reads
       (((\<lambda>s. loadFeaturesFromCache example_fs s ''weapon/normal'') ^^ 3) init_state) =
       [''weapon/normal_features.json'', ''weapon/normal_features.json'',
        ''weapon/normal_features.json'']
   \<and> ordinary_key ''weapon/normal''
   \<and> category_entries
       (((\<lambda>s. loadFeaturesFromCache example_fs s ''weapon/normal'') ^^ 3) init_state)
       ''weapon/normal'' = []"
proof -
  note t = loadFeaturesFromCache_reads_when_no_entry
    [where fs = example_fs and s = init_state and cat = "''chara''" and n = 2
      and convertTo = no_conversion and q = zero_descriptor and threshold = 10 and top_n = 3
      and earlyReturn = False]
  note u = loadFeaturesFromCache_reads_when_no_entry
    [where fs = example_fs and s = init_state and cat = "''weapon/normal''" and n = 3
      and convertTo = no_conversion and q = zero_descriptor and threshold = 10 and top_n = 3
      and earlyReturn = False]
  have r: "artifact_reads init_state = []"
    by (simp add: init_state_def)
  have i: "category_entries init_state cat = []" for cat
    using init_state_no_features [of cat] by (simp add: has_features_entries)
  have l: "category_entries (loadFeaturesFromCache example_fs init_state ''chara'') ''chara'' =
      [(''lyria'', zero_descriptor)]"
    by (simp add: example_load_chara category_entries_def js_get_def)
  have a: "((\<lambda>s. loadFeaturesFromCache example_fs s ''chara'') ^^ 3) init_state =
      loadFeaturesFromCache example_fs init_state ''chara''"
    using t by (simp add: l numeral_3_eq_3)
  have b: "artifact_reads (loadFeaturesFromCache example_fs init_state ''chara'') =
      [''chara_features.json'']"
    using t by (simp add: i r cacheFileName_def)
  have c: "js_get (templateFeatures (loadFeaturesFromCache example_fs init_state ''chara''))
      ''chara'' = Some [(''lyria'', zero_descriptor)]"
    by (simp add: example_load_chara js_get_def)
  have d: "fst (snd (matchEquipment example_fs no_conversion init_state zero_descriptor ''chara''
      10 3 False)) = loadFeaturesFromCache example_fs init_state ''chara''"
    using t by simp
  have nf: "category_entries (((\<lambda>s. loadFeaturesFromCache example_fs s ''weapon/normal'') ^^ k)
      init_state) ''weapon/normal'' = []" for k
    using i [of "''weapon/normal''"]
    by (simp add: example_weapon_normal_three_loads category_entries_def)
  have e: "category_entries (loadFeaturesFromCache example_fs init_state ''weapon/normal'')
      ''weapon/normal'' = []"
    using nf [of 1] by simp
  have "artifact_reads
      (((\<lambda>s. loadFeaturesFromCache example_fs s ''weapon/normal'') ^^ 3) init_state) =
      artifact_reads init_state @
        replicate
          (length (filter
             (\<lambda>k. category_entries
                (((\<lambda>s. loadFeaturesFromCache example_fs s ''weapon/normal'') ^^ k) init_state)
                ''weapon/normal'' = [])
             [0..<3]))
          (cacheFileName ''weapon/normal'')"
    by (rule conjunct1 [OF conjunct2 [OF conjunct2 [OF u]]])
  then have f: "artifact_reads
      (((\<lambda>s. loadFeaturesFromCache example_fs s ''weapon/normal'') ^^ 3) init_state) =
      [''weapon/normal_features.json'', ''weapon/normal_features.json'',
       ''weapon/normal_features.json'']"
    unfolding nf by (simp add: r cacheFileName_def numeral_3_eq_3)
  note v = loadFeaturesFromCache_reads_when_no_entry
    [where fs = example_fs and s = init_state and cat = "''weapon/normal''" and n = 2
      and convertTo = no_conversion and q = zero_descriptor and threshold = 10 and top_n = 3
      and earlyReturn = False]
  have o: "ordinary_key ''weapon/normal''"
    using ordinary_route_categories by (simp add: route_categories_def)
  with v have "category_entries
      (((\<lambda>s. loadFeaturesFromCache example_fs s ''weapon/normal'') ^^ Suc 2) init_state)
      ''weapon/normal'' =
      category_entries (loadFeaturesFromCache example_fs init_state ''weapon/normal'')
        ''weapon/normal''"
    by blast
  then have g: "category_entries
      (((\<lambda>s. loadFeaturesFromCache example_fs s ''weapon/normal'') ^^ 3) init_state)
      ''weapon/normal'' = []"
    by (simp add: e numeral_3_eq_3)
  from a b c d e f o g show ?thesis by simp
qed

text \<open>
  C1, as it is stated, fails for a category whose load produced no usable entry. The
  artifact of \<^verbatim>\<open>weapon/normal\<close> is well formed and its only blob is \<^verbatim>\<open>null\<close>: the
  first load reads it and leaves the category empty, and the second call reads it again.
  So do two matches in a row, each of which triggers the load.
\<close>

theorem loadFeaturesFromCache_rereads_empty_category:
  "artifact_reads (loadFeaturesFromCache example_fs init_state ''weapon/normal'') =
     [''weapon/normal_features.json'']
   \<and> js_get (templateFeatures (loadFeaturesFromCache example_fs init_state ''weapon/normal''))
       ''weapon/normal'' = Some []
   \<and> artifact_reads (loadFeaturesFromCache example_fs
        (loadFeaturesFromCache example_fs init_state ''weapon/normal'') ''weapon/normal'') =
     [''weapon/normal_features.json'', ''weapon/normal_features.json'']
   \<and> matchEquipment example_fs no_conversion init_state zero_descriptor ''weapon/normal'' 10 3
       False =
     ([], init_state\<lparr>artifact_reads := [''weapon/normal_features.json'']\<rparr>, [])
   \<and> matchEquipment example_fs no_conversion
       (init_state\<lparr>artifact_reads := [''weapon/normal_features.json'']\<rparr>) zero_descriptor
       ''weapon/normal'' 10 3 False =
     ([], init_state\<lparr>artifact_reads :=
        [''weapon/normal_features.json'', ''weapon/normal_features.json'']\<rparr>, [])"
proof -
  let ?s1 = "init_state\<lparr>artifact_reads := [''weapon/normal_features.json'']\<rparr>"
  let ?s2 = "init_state\<lparr>artifact_reads :=
    [''weapon/normal_features.json'', ''weapon/normal_features.json'']\<rparr>"
  have l1: "loadFeaturesFromCache example_fs init_state ''weapon/normal'' = ?s1"
    by (rule example_load_weapon_normal)
  have l2: "loadFeaturesFromCache example_fs ?s1 ''weapon/normal'' = ?s2"
    by (rule example_load_weapon_normal_again)
  have g: "js_get (templateFeatures ?s1) ''weapon/normal'' = Some []"
    by (simp add: init_state_def templateFeatures_init_def js_get_def)
  have m1: "matchEquipment example_fs no_conversion init_state zero_descriptor ''weapon/normal''
      10 3 False = ([], ?s1, [])"
    using matchEquipment_no_features [of init_state "''weapon/normal''" example_fs]
    by (simp add: init_state_no_features l1)
  have m2: "matchEquipment example_fs no_conversion ?s1 zero_descriptor ''weapon/normal''
      10 3 False = ([], ?s2, [])"
    using matchEquipment_no_features [of ?s1 "''weapon/normal''" example_fs]
    by (simp add: l2 init_state_no_features)
  from g m1 m2 show ?thesis
    by (simp add: l1 l2)
qed

subsection \<open>Overlapping calls\<close>

lemma has_features_ensure_object:
  "has_features (ensure_object s cat) cat = has_features s cat"
proof (cases "js_get (templateFeatures s) cat")
  case (Some obj)
  then show ?thesis by (simp add: ensure_object_def)
next
  case None
  show ?thesis
  proof (cases "cat = ''__proto__''")
    case True
    with None show ?thesis
      by (simp add: ensure_object_def has_features_def js_set_def)
  next
    case False
    with None show ?thesis
      by (simp add: ensure_object_def has_features_def js_get_js_set_same)
  qed
qed

lemma load_cut:
  "(case load_begin s cat of (s1, waiting) \<Rightarrow> load_resume fs waiting s1 cat) =
     loadFeaturesFromCache fs s cat"
  by (simp add: load_begin_def load_resume_def load_finish_def loadFeaturesFromCache_def Let_def)

lemma consecutive_loads_eq:
  "consecutive_loads fs s cat =
     loadFeaturesFromCache fs (loadFeaturesFromCache fs s cat) cat"
proof -
  obtain s1 w1 where b1: "load_begin s cat = (s1, w1)"
    by (cases "load_begin s cat") auto
  then have l1: "load_resume fs w1 s1 cat = loadFeaturesFromCache fs s cat"
    using load_cut [where s = s and cat = cat and fs = fs] by simp
  obtain s2 w2 where b2: "load_begin (loadFeaturesFromCache fs s cat) cat = (s2, w2)"
    by (cases "load_begin (loadFeaturesFromCache fs s cat) cat") auto
  then have "load_resume fs w2 s2 cat =
      loadFeaturesFromCache fs (loadFeaturesFromCache fs s cat) cat"
    using load_cut [where s = "loadFeaturesFromCache fs s cat" and cat = cat and fs = fs] by simp
  then show ?thesis
    by (simp add: consecutive_loads_def b1 l1 b2)
qed

lemma artifact_reads_load_finish:
  "artifact_reads (load_finish fs s cat) = artifact_reads s"
  by (simp add: load_finish_def artifact_reads_load_entries artifact_reads_ensure_object
      split: artifact.splits option.splits)

lemma artifact_reads_overlapping_loads:
  assumes "has_features s cat = False"
  shows "artifact_reads (overlapping_loads fs s cat) =
    artifact_reads s @ [cacheFileName cat, cacheFileName cat]"
proof -
  let ?s1 = "(ensure_object s cat)\<lparr>artifact_reads := artifact_reads s @ [cacheFileName cat]\<rparr>"
  have b1: "load_begin s cat = (?s1, True)"
    using assms by (simp add: load_begin_def Let_def artifact_reads_ensure_object)
  have "has_features ?s1 cat = False"
    using assms by (simp add: has_features_ensure_object)
  then have b2: "load_begin ?s1 cat =
      ((ensure_object ?s1 cat)\<lparr>artifact_reads :=
          artifact_reads s @ [cacheFileName cat, cacheFileName cat]\<rparr>, True)"
    by (simp add: load_begin_def Let_def artifact_reads_ensure_object)
  show ?thesis
    by (simp add: overlapping_loads_def b1 b2 load_resume_def artifact_reads_load_finish)
qed

lemma overlapping_loads_loaded:
  "has_features s cat \<Longrightarrow> overlapping_loads fs s cat = s"
  by (simp add: overlapping_loads_def load_begin_def load_resume_def)

subsection \<open>Storing the entries twice\<close>

lemma keys_js_set:
  "fst ` set (js_set obj k v) =
     (if k = ''__proto__'' then fst ` set obj else insert k (fst ` set obj))"
proof (cases "k = ''__proto__''")
  case True
  then show ?thesis by (simp add: js_set_def)
next
  case False
  have "fst ` set (js_set obj k v) = dom (map_of (js_set obj k v))"
    by (simp add: dom_map_of_conv_image_fst)
  also have "\<dots> = insert k (dom (map_of obj))"
    by (simp add: map_of_js_set False)
  also have "\<dots> = insert k (fst ` set obj)"
    by (simp add: dom_map_of_conv_image_fst)
  finally show ?thesis using False by simp
qed

lemma map_fst_js_set_present:
  "k = ''__proto__'' \<or> k \<in> fst ` set obj \<Longrightarrow> map fst (js_set obj k v) = map fst obj"
  by (auto simp: js_set_def map_fst_replace simp del: map_map)

lemma map_fst_foldl_js_set_present:
  "list_all (\<lambda>e. fst e = ''__proto__'' \<or> fst e \<in> fst ` set obj) es \<Longrightarrow>
     map fst (foldl (\<lambda>obj (name, m). js_set obj name m) obj es) = map fst obj"
proof (induction es arbitrary: obj)
  case Nil
  then show ?case by simp
next
  case (Cons e es)
  obtain name m where e: "e = (name, m)" by (cases e)
  from Cons.prems have here: "name = ''__proto__'' \<or> name \<in> fst ` set obj"
    and rest: "list_all (\<lambda>e. fst e = ''__proto__'' \<or> fst e \<in> fst ` set obj) es"
    by (simp_all add: e)
  from here have keys: "fst ` set (js_set obj name m) = fst ` set obj"
    by (auto simp: keys_js_set)
  have "map fst (foldl (\<lambda>obj (name, m). js_set obj name m) (js_set obj name m) es) =
      map fst (js_set obj name m)"
    by (rule Cons.IH) (simp add: keys rest)
  with here show ?case
    by (simp add: e map_fst_js_set_present)
qed

lemma keys_foldl_js_set:
  "fst ` set obj \<subseteq> fst ` set (foldl (\<lambda>obj (name, m). js_set obj name m) obj es)
   \<and> list_all (\<lambda>e. fst e = ''__proto__''
        \<or> fst e \<in> fst ` set (foldl (\<lambda>obj (name, m). js_set obj name m) obj es)) es"
proof (induction es arbitrary: obj)
  case Nil
  then show ?case by simp
next
  case (Cons e es)
  obtain name m where e: "e = (name, m)" by (cases e)
  let ?o = "js_set obj name m"
  let ?r = "foldl (\<lambda>obj (name, m). js_set obj name m) ?o es"
  from Cons.IH [of ?o] have sub: "fst ` set ?o \<subseteq> fst ` set ?r"
    and all: "list_all (\<lambda>e. fst e = ''__proto__'' \<or> fst e \<in> fst ` set ?r) es"
    by simp_all
  have "fst ` set obj \<subseteq> fst ` set ?o"
    by (auto simp: keys_js_set)
  moreover have "name = ''__proto__'' \<or> name \<in> fst ` set ?o"
    by (auto simp: keys_js_set)
  ultimately show ?case
    using sub all by (auto simp: e)
qed

lemma map_of_foldl_js_set_any:
  "map_of (foldl (\<lambda>obj (name, m). js_set obj name m) obj es) =
     map_of obj ++ map_of (rev (filter (\<lambda>e. fst e \<noteq> ''__proto__'') es))"
proof (induction es arbitrary: obj)
  case Nil
  then show ?case by simp
next
  case (Cons e es)
  obtain name m where e: "e = (name, m)" by (cases e)
  show ?case
  proof (cases "name = ''__proto__''")
    case True
    then show ?thesis
      using Cons.IH [of obj] by (simp add: e js_set_def)
  next
    case False
    have "map_of (foldl (\<lambda>obj (name, m). js_set obj name m) obj (e # es)) =
        map_of (js_set obj name m) ++ map_of (rev (filter (\<lambda>e. fst e \<noteq> ''__proto__'') es))"
      using Cons.IH [of "js_set obj name m"] by (simp add: e)
    also have "\<dots> = (map_of obj)(name \<mapsto> m) ++
        map_of (rev (filter (\<lambda>e. fst e \<noteq> ''__proto__'') es))"
      by (simp add: map_of_js_set False)
    also have "\<dots> = map_of obj ++ map_of (rev (filter (\<lambda>e. fst e \<noteq> ''__proto__'') (e # es)))"
      using False by (auto simp: e fun_eq_iff map_add_def split: option.splits)
    finally show ?thesis .
  qed
qed

lemma same_keys_same_values:
  assumes "map fst xs = map fst ys" "distinct (map fst xs)" "map_of xs = map_of ys"
  shows "xs = ys"
proof (rule nth_equalityI)
  from assms(1) show len: "length xs = length ys"
    using length_map [of fst xs] length_map [of fst ys] by simp
  fix i
  assume i: "i < length xs"
  with len have j: "i < length ys" by simp
  from i j assms(1) have k: "fst (xs ! i) = fst (ys ! i)"
    using nth_map [of i xs fst] nth_map [of i ys fst] by simp
  from assms(1,2) have dy: "distinct (map fst ys)" by simp
  from i have "(fst (xs ! i), snd (xs ! i)) \<in> set xs" by simp
  with assms(2) have "map_of xs (fst (xs ! i)) = Some (snd (xs ! i))"
    by (simp only: map_of_eq_Some_iff)
  moreover from j have "(fst (ys ! i), snd (ys ! i)) \<in> set ys" by simp
  with dy have "map_of ys (fst (ys ! i)) = Some (snd (ys ! i))"
    by (simp only: map_of_eq_Some_iff)
  ultimately have "snd (xs ! i) = snd (ys ! i)"
    using assms(3) k by simp
  with k show "xs ! i = ys ! i"
    by (simp add: prod_eq_iff)
qed

lemma foldl_js_set_twice:
  assumes "distinct (map fst obj)"
  shows "foldl (\<lambda>obj (name, m). js_set obj name m)
           (foldl (\<lambda>obj (name, m). js_set obj name m) obj es) es =
         foldl (\<lambda>obj (name, m). js_set obj name m) obj es"
proof (rule same_keys_same_values)
  let ?o = "foldl (\<lambda>obj (name, m). js_set obj name m) obj es"
  show "map fst (foldl (\<lambda>obj (name, m). js_set obj name m) ?o es) = map fst ?o"
    by (rule map_fst_foldl_js_set_present) (rule conjunct2 [OF keys_foldl_js_set])
  then show "distinct (map fst (foldl (\<lambda>obj (name, m). js_set obj name m) ?o es))"
    using distinct_foldl_js_set [OF assms, of es] by simp
  show "map_of (foldl (\<lambda>obj (name, m). js_set obj name m) ?o es) = map_of ?o"
    by (auto simp: map_of_foldl_js_set_any [of ?o] map_of_foldl_js_set_any [of obj]
        fun_eq_iff map_add_def split: option.splits)
qed

lemma js_set_present:
  "js_get tf cat = Some obj \<Longrightarrow> cat \<noteq> ''__proto__'' \<Longrightarrow>
     js_set tf cat v = map (\<lambda>(k', v'). if k' = cat then (k', v) else (k', v')) tf"
proof -
  assume "js_get tf cat = Some obj" and "cat \<noteq> ''__proto__''"
  then have "cat \<in> fst ` set tf"
    using map_of_eq_None_iff [of tf cat] by (auto simp: js_get_def)
  with \<open>cat \<noteq> ''__proto__''\<close> show ?thesis
    by (simp add: js_set_def)
qed

lemma replace_replace:
  "map (\<lambda>(k', v'). if k' = cat then (k', w) else (k', v'))
     (map (\<lambda>(k', v'). if k' = cat then (k', v) else (k', v')) tf) =
   map (\<lambda>(k', v'). if k' = cat then (k', w) else (k', v')) tf"
  by (induction tf) auto

lemma templateFeatures_load_entries:
  "js_get (templateFeatures s) cat = Some obj \<Longrightarrow> cat \<noteq> ''__proto__'' \<Longrightarrow>
     templateFeatures (load_entries s cat ps) =
       (if usable_entries ps = [] then templateFeatures s
        else map (\<lambda>(k', v'). if k' = cat
                    then (k', foldl (\<lambda>obj (name, m). js_set obj name m) obj (usable_entries ps))
                    else (k', v')) (templateFeatures s))"
proof (induction ps arbitrary: s obj)
  case Nil
  then show ?case by (simp add: usable_entries_def map_filter_simps)
next
  case (Cons p ps)
  obtain name desStr where p: "p = (name, desStr)" by (cases p)
  show ?case
  proof (cases "decoded_entry p")
    case None
    then have "load_entries s cat (p # ps) = load_entries s cat ps"
      unfolding p
      by (cases desStr)
        (auto simp: deserializeDescriptors_Nil Mat_empty_new_Mat split: sum.splits if_splits)
    moreover from None have "usable_entries (p # ps) = usable_entries ps"
      by (simp add: usable_entries_def map_filter_simps)
    ultimately show ?thesis using Cons.IH [OF Cons.prems] by (simp only:)
  next
    case (Some e)
    then obtain str m where str: "desStr = Some str" "deserializeDescriptors str = Inr m"
      "Mat_empty m = False" "e = (name, m)"
      unfolding p by (cases desStr) (auto split: sum.splits if_splits)
    from str have "str \<noteq> []"
      using deserializeDescriptors_Nil Mat_empty_new_Mat by auto
    with str have step: "load_entries s cat (p # ps) =
        load_entries (store_template s cat name m) cat ps"
      unfolding p by simp
    from Some str have us: "usable_entries (p # ps) = (name, m) # usable_entries ps"
      by (simp add: usable_entries_def map_filter_simps)
    let ?s' = "store_template s cat name m"
    have get: "js_get (templateFeatures ?s') cat = Some (js_set obj name m)"
      using Cons.prems by (rule js_get_store_template)
    have tf: "templateFeatures ?s' =
        map (\<lambda>(k', v'). if k' = cat then (k', js_set obj name m) else (k', v')) (templateFeatures s)"
      using Cons.prems by (simp add: store_template_def js_set_present)
    have f: "foldl (\<lambda>obj (name, m). js_set obj name m) obj ((name, m) # usable_entries ps) =
        foldl (\<lambda>obj (name, m). js_set obj name m) (js_set obj name m) (usable_entries ps)"
      by simp
    show ?thesis
    proof (cases "usable_entries ps = []")
      case True
      then have f0: "foldl (\<lambda>obj (name, m). js_set obj name m) (js_set obj name m)
          (usable_entries ps) = js_set obj name m"
        by simp
      show ?thesis
        unfolding step us Cons.IH [OF get Cons.prems(2)] tf f f0 using True by simp
    next
      case False
      then show ?thesis
        unfolding step us Cons.IH [OF get Cons.prems(2)] tf f
        by (simp only: if_False replace_replace list.simps)
    qed
  qed
qed

lemma load_entries_twice:
  assumes "js_get (templateFeatures s) cat = Some obj" "cat \<noteq> ''__proto__''"
    and "distinct (map fst obj)"
  shows "templateFeatures (load_entries (load_entries s cat ps) cat ps) =
    templateFeatures (load_entries s cat ps)"
proof -
  let ?o = "foldl (\<lambda>obj (name, m). js_set obj name m) obj (usable_entries ps)"
  have get: "js_get (templateFeatures (load_entries s cat ps)) cat = Some ?o"
    using assms(1,2) by (rule js_get_load_entries)
  show ?thesis
  proof (cases "usable_entries ps = []")
    case True
    then show ?thesis
      unfolding templateFeatures_load_entries [OF get assms(2)]
        templateFeatures_load_entries [OF assms(1,2)]
      by (simp only: if_True simp_thms)
  next
    case False
    then show ?thesis
      unfolding templateFeatures_load_entries [OF get assms(2)]
        templateFeatures_load_entries [OF assms(1,2)] foldl_js_set_twice [OF assms(3)]
      by (simp only: if_False replace_replace)
  qed
qed

lemma store_template_reads:
  "store_template (s\<lparr>artifact_reads := r\<rparr>) cat name m =
     (store_template s cat name m)\<lparr>artifact_reads := r\<rparr>"
  by (simp add: store_template_def split: option.splits)

lemma load_entries_reads:
  "load_entries (s\<lparr>artifact_reads := r\<rparr>) cat ps = (load_entries s cat ps)\<lparr>artifact_reads := r\<rparr>"
  by (induction s cat ps rule: load_entries.induct)
    (auto simp: store_template_reads split: option.splits sum.splits)

lemma ensure_object_reads:
  "ensure_object (s\<lparr>artifact_reads := r\<rparr>) cat = (ensure_object s cat)\<lparr>artifact_reads := r\<rparr>"
  by (simp add: ensure_object_def split: option.splits)

lemma load_finish_reads:
  "load_finish fs (s\<lparr>artifact_reads := r\<rparr>) cat = (load_finish fs s cat)\<lparr>artifact_reads := r\<rparr>"
  by (simp add: load_finish_def load_entries_reads ensure_object_reads
      split: artifact.splits option.splits)

lemma load_finish_twice:
  assumes "js_get (templateFeatures s) cat = Some []" "cat \<noteq> ''__proto__''"
  shows "load_finish fs (load_finish fs s cat) cat = load_finish fs s cat"
proof -
  have e: "ensure_object s cat = s"
    using assms(1) by (rule ensure_object_present)
  have t: "templateFeatures (load_finish fs (load_finish fs s cat) cat) =
      templateFeatures (load_finish fs s cat)"
    using load_entries_twice [OF assms, of _] e
    by (simp add: load_finish_def split: artifact.splits option.splits)
  have "artifact_reads (load_finish fs (load_finish fs s cat) cat) =
      artifact_reads (load_finish fs s cat)"
    by (simp add: artifact_reads_load_finish)
  with t show ?thesis by simp
qed

lemma overlapping_loads_state:
  assumes "ordinary_key cat" "has_features s cat = False"
  shows "overlapping_loads fs s cat =
    (loadFeaturesFromCache fs s cat)\<lparr>artifact_reads :=
       artifact_reads s @ [cacheFileName cat, cacheFileName cat]\<rparr>"
proof -
  let ?e = "ensure_object s cat"
  let ?s1 = "?e\<lparr>artifact_reads := artifact_reads s @ [cacheFileName cat]\<rparr>"
  let ?s2 = "?e\<lparr>artifact_reads := artifact_reads s @ [cacheFileName cat, cacheFileName cat]\<rparr>"
  have get: "js_get (templateFeatures ?e) cat = Some []"
    using assms by (rule js_get_ensure_object)
  have np: "cat \<noteq> ''__proto__''"
    using assms(1) by (rule ordinary_key_not_proto)
  have b1: "load_begin s cat = (?s1, True)"
    using assms(2) by (simp add: load_begin_def Let_def artifact_reads_ensure_object)
  have "has_features ?s1 cat = False"
    using assms(2) by (simp add: has_features_ensure_object)
  moreover have "ensure_object ?s1 cat = ?s1"
    using get by (simp add: ensure_object_def)
  ultimately have b2: "load_begin ?s1 cat = (?s2, True)"
    by (simp add: load_begin_def Let_def)
  have l: "loadFeaturesFromCache fs s cat = load_finish fs ?s1 cat"
    using load_cut [where s = s and cat = cat and fs = fs] by (simp add: b1 load_resume_def)
  have "overlapping_loads fs s cat = load_finish fs (load_finish fs ?s2 cat) cat"
    by (simp add: overlapping_loads_def b1 b2 load_resume_def)
  also have "\<dots> = (load_finish fs (load_finish fs ?e cat) cat)\<lparr>artifact_reads :=
      artifact_reads s @ [cacheFileName cat, cacheFileName cat]\<rparr>"
    by (simp only: load_finish_reads)
  also have "load_finish fs (load_finish fs ?e cat) cat = load_finish fs ?e cat"
    using get np by (rule load_finish_twice)
  finally show ?thesis
    by (simp add: l load_finish_reads)
qed

text \<open>
  C9, as the code has it. \<^verbatim>\<open>loadFeaturesFromCache\<close> has no lock and keeps no record of
  a load in progress: its two parts, run one after the other, are the whole function,
  and nothing but the entries of the category tells a later call that a load was begun.
  Two calls of which the second begins when the first has finished are two calls in a
  row: the second reads nothing when the first has left an entry. Two calls of which the
  second begins while the first is waiting for the file both find the category without
  an entry, and both read the artifact; neither waits for the other. The second load
  stores the same entries over those of the first, so what both callers find afterwards
  is what a single load leaves.
\<close>

theorem overlapping_loads_each_read:
  "(case load_begin s cat of (s1, waiting) \<Rightarrow> load_resume fs waiting s1 cat) =
     loadFeaturesFromCache fs s cat
   \<and> consecutive_loads fs s cat =
       loadFeaturesFromCache fs (loadFeaturesFromCache fs s cat) cat
   \<and> artifact_reads (consecutive_loads fs s cat) =
       (if category_entries s cat \<noteq> [] then artifact_reads s
        else if category_entries (loadFeaturesFromCache fs s cat) cat \<noteq> []
        then artifact_reads s @ [cacheFileName cat]
        else artifact_reads s @ [cacheFileName cat, cacheFileName cat])
   \<and> artifact_reads (overlapping_loads fs s cat) =
       (if category_entries s cat \<noteq> [] then artifact_reads s
        else artifact_reads s @ [cacheFileName cat, cacheFileName cat])
   \<and> (ordinary_key cat \<longrightarrow>
        templateFeatures (overlapping_loads fs s cat) =
          templateFeatures (loadFeaturesFromCache fs s cat))"
proof (intro conjI impI)
  show "(case load_begin s cat of (s1, waiting) \<Rightarrow> load_resume fs waiting s1 cat) =
      loadFeaturesFromCache fs s cat"
    by (rule load_cut)
  show "consecutive_loads fs s cat =
      loadFeaturesFromCache fs (loadFeaturesFromCache fs s cat) cat"
    by (rule consecutive_loads_eq)
  show "artifact_reads (consecutive_loads fs s cat) =
      (if category_entries s cat \<noteq> [] then artifact_reads s
       else if category_entries (loadFeaturesFromCache fs s cat) cat \<noteq> []
       then artifact_reads s @ [cacheFileName cat]
       else artifact_reads s @ [cacheFileName cat, cacheFileName cat])"
    unfolding has_features_entries [symmetric]
    by (simp add: consecutive_loads_eq artifact_reads_load loadFeaturesFromCache_loaded)
  show "artifact_reads (overlapping_loads fs s cat) =
      (if category_entries s cat \<noteq> [] then artifact_reads s
       else artifact_reads s @ [cacheFileName cat, cacheFileName cat])"
    unfolding has_features_entries [symmetric]
    by (simp add: overlapping_loads_loaded artifact_reads_overlapping_loads)
next
  assume o: "ordinary_key cat"
  show "templateFeatures (overlapping_loads fs s cat) =
      templateFeatures (loadFeaturesFromCache fs s cat)"
  proof (cases "has_features s cat")
    case True
    then show ?thesis
      by (simp add: overlapping_loads_loaded loadFeaturesFromCache_loaded)
  next
    case False
    then have "has_features s cat = False" by simp
    from overlapping_loads_state [OF o this, of fs] show ?thesis by simp
  qed
qed

theorem overlapping_loads_each_read_witness:
  "ordinary_key ''chara''
   \<and> overlapping_loads example_fs init_state ''chara'' =
       \<lparr>templateFeatures =
          [(''summon/party_main'', []), (''summon/party_sub'', []), (''weapon/main'', []),
           (''weapon/normal'', []), (''chara'', [(''lyria'', zero_descriptor)])],
        artifact_reads = [''chara_features.json'', ''chara_features.json'']\<rparr>
   \<and> consecutive_loads example_fs init_state ''chara'' =
       \<lparr>templateFeatures =
          [(''summon/party_main'', []), (''summon/party_sub'', []), (''weapon/main'', []),
           (''weapon/normal'', []), (''chara'', [(''lyria'', zero_descriptor)])],
        artifact_reads = [''chara_features.json'']\<rparr>"
proof -
  have o: "ordinary_key ''chara''"
    using ordinary_route_categories by (simp add: route_categories_def)
  note t = overlapping_loads_each_read
    [where fs = example_fs and s = init_state and cat = "''chara''"]
  have r: "artifact_reads init_state = []"
    by (simp add: init_state_def)
  from t o have "templateFeatures (overlapping_loads example_fs init_state ''chara'') =
      templateFeatures (loadFeaturesFromCache example_fs init_state ''chara'')"
    by blast
  moreover from t have "artifact_reads (overlapping_loads example_fs init_state ''chara'') =
      [''chara_features.json'', ''chara_features.json'']"
    using init_state_no_features [of "''chara''"]
    by (simp add: has_features_entries r cacheFileName_def)
  ultimately have a: "overlapping_loads example_fs init_state ''chara'' =
      \<lparr>templateFeatures =
         [(''summon/party_main'', []), (''summon/party_sub'', []), (''weapon/main'', []),
          (''weapon/normal'', []), (''chara'', [(''lyria'', zero_descriptor)])],
       artifact_reads = [''chara_features.json'', ''chara_features.json'']\<rparr>"
    by (simp add: example_load_chara)
  from t have "consecutive_loads example_fs init_state ''chara'' =
      loadFeaturesFromCache example_fs (loadFeaturesFromCache example_fs init_state ''chara'')
        ''chara''"
    by blast
  then have b: "consecutive_loads example_fs init_state ''chara'' =
      \<lparr>templateFeatures =
         [(''summon/party_main'', []), (''summon/party_sub'', []), (''weapon/main'', []),
          (''weapon/normal'', []), (''chara'', [(''lyria'', zero_descriptor)])],
       artifact_reads = [''chara_features.json'']\<rparr>"
    using loadFeaturesFromCache_loaded [OF example_chara_has_features, of example_fs]
    by (simp add: example_load_chara)
  from o a b show ?thesis by blast
qed

text \<open>
  C9, as it is stated, fails: nothing makes the callers of one category wait for each
  other. At the start no category has an entry. Two calls for \<^verbatim>\<open>chara\<close> of which
  the second begins while the first is waiting for the file go to the cache file twice;
  the same two calls one after the other go to it once.
\<close>

theorem overlapping_first_use_reads_twice:
  "category_entries init_state ''chara'' = []
   \<and> artifact_reads (overlapping_loads example_fs init_state ''chara'') =
       [''chara_features.json'', ''chara_features.json'']
   \<and> artifact_reads (consecutive_loads example_fs init_state ''chara'') =
       [''chara_features.json'']"
proof -
  have r: "artifact_reads init_state = []"
    by (simp add: init_state_def)
  have a: "artifact_reads (overlapping_loads example_fs init_state ''chara'') =
      [''chara_features.json'', ''chara_features.json'']"
    using artifact_reads_overlapping_loads
        [where s = init_state and cat = "''chara''" and fs = example_fs]
    by (simp add: init_state_no_features r cacheFileName_def)
  have b: "artifact_reads (consecutive_loads example_fs init_state ''chara'') =
      [''chara_features.json'']"
    using loadFeaturesFromCache_loaded [OF example_chara_has_features, of example_fs]
    by (simp add: consecutive_loads_eq example_load_chara)
  from init_state_no_features [of "''chara''"] a b show ?thesis
    by (simp add: has_features_entries)
qed

subsection \<open>Failed loads\<close>

text \<open>
  C7. When the category has no entry yet and its load fails (the artifact is missing or
  unreadable, or one of its arrays is absent, or the arrays differ in length), a match
  returns the empty list without comparing anything; the load has left the category with
  an empty object and no entry, and a further match, whatever its query and parameters,
  returns the empty list again. Nothing is thrown: the results are values.
\<close>

theorem failed_load_matches_nothing:
  assumes "ordinary_key cat" "has_features s cat = False" "load_fails fs cat"
  shows "(case matchEquipment fs convertTo s q cat threshold top_n earlyReturn of
      (ms, s', compared) \<Rightarrow>
        ms = [] \<and> compared = []
        \<and> s' = loadFeaturesFromCache fs s cat
        \<and> js_get (templateFeatures s') cat = Some []
        \<and> has_features s' cat = False
        \<and> fst (matchEquipment fs convertTo s' q' cat threshold' top_n' earlyReturn') = [])"
proof -
  let ?s' = "loadFeaturesFromCache fs s cat"
  have s': "?s' = (ensure_object s cat)\<lparr>artifact_reads := artifact_reads s @ [cacheFileName cat]\<rparr>"
    using assms by (rule loadFeaturesFromCache_fails)
  have get: "js_get (templateFeatures ?s') cat = Some []"
    unfolding s' using js_get_ensure_object [OF assms(1,2)] by simp
  then have nf: "has_features ?s' cat = False"
    by (simp add: has_features_def)
  have m: "matchEquipment fs convertTo s q cat threshold top_n earlyReturn = ([], ?s', [])"
    using assms(2) nf by (rule matchEquipment_no_features)
  have "has_features (loadFeaturesFromCache fs ?s' cat) cat = False"
  proof -
    have "loadFeaturesFromCache fs ?s' cat =
        (ensure_object ?s' cat)\<lparr>artifact_reads := artifact_reads ?s' @ [cacheFileName cat]\<rparr>"
      using assms(1) nf assms(3) by (rule loadFeaturesFromCache_fails)
    moreover have "js_get (templateFeatures (ensure_object ?s' cat)) cat = Some []"
      using assms(1) nf by (rule js_get_ensure_object)
    ultimately show ?thesis by (simp add: has_features_def)
  qed
  with nf have "matchEquipment fs convertTo ?s' q' cat threshold' top_n' earlyReturn' =
      ([], loadFeaturesFromCache fs ?s' cat, [])"
    by (rule matchEquipment_no_features)
  with m get nf show ?thesis by simp
qed

theorem failed_load_matches_nothing_witness:
  "ordinary_key ''weapon/main'' \<and> has_features init_state ''weapon/main'' = False
   \<and> load_fails example_fs ''weapon/main''
   \<and> fst (matchEquipment example_fs no_conversion init_state zero_descriptor ''weapon/main''
        10 3 False) = []
   \<and> fst (matchEquipment example_fs no_conversion
        (loadFeaturesFromCache example_fs init_state ''weapon/main'') example_query
        ''weapon/main'' 1 3 True) = []
   \<and> ordinary_key ''summon/party_sub'' \<and> load_fails example_fs ''summon/party_sub''
   \<and> fst (matchEquipment example_fs no_conversion init_state zero_descriptor
        ''summon/party_sub'' 10 3 False) = []"
proof -
  have o': "ordinary_key ''summon/party_sub''"
    using ordinary_route_categories by (simp add: route_categories_def)
  have "fst (matchEquipment example_fs no_conversion init_state zero_descriptor
      ''summon/party_sub'' 10 3 False) = []"
    using failed_load_matches_nothing [OF o' init_state_no_features example_missing_fails,
        where convertTo = no_conversion and q = zero_descriptor and threshold = 10
          and top_n = 3 and earlyReturn = False and q' = zero_descriptor and threshold' = 10
          and top_n' = 3 and earlyReturn' = False]
    by (auto split: prod.splits)
  note missing = o' example_missing_fails this
  have o: "ordinary_key ''weapon/main''"
    using ordinary_route_categories by (simp add: route_categories_def)
  note t = failed_load_matches_nothing [OF o init_state_no_features example_malformed_fails,
      where convertTo = no_conversion and q = zero_descriptor and threshold = 10
        and top_n = 3 and earlyReturn = False and q' = example_query and threshold' = 1
        and top_n' = 3 and earlyReturn' = True]
  from t have "fst (matchEquipment example_fs no_conversion init_state zero_descriptor
      ''weapon/main'' 10 3 False) = []"
    by (simp split: prod.splits)
  moreover from t have "fst (matchEquipment example_fs no_conversion
      (loadFeaturesFromCache example_fs init_state ''weapon/main'') example_query
      ''weapon/main'' 1 3 True) = []"
    by (auto split: prod.splits)
  ultimately show ?thesis
    using o init_state_no_features example_malformed_fails missing by blast
qed

subsection \<open>Entries that cannot be used\<close>

lemma set_usable_entries_fst:
  "fst ` set (usable_entries ps) \<subseteq> fst ` set ps"
proof -
  have "set (map fst (usable_entries ps)) \<subseteq> set (map fst ps)"
    unfolding fst_usable_entries by auto
  then show ?thesis by simp
qed

lemma distinct_usable_entries:
  "distinct (map fst ps) \<Longrightarrow> distinct (map fst (usable_entries ps))"
  unfolding fst_usable_entries by (rule distinct_map_filter)

text \<open>
  C8. When the artifact of a category without entries is well formed, the loaded
  reference set is, as a mapping from names to matrices, exactly the usable entries of
  the artifact: an entry whose blob is absent, fails to decode or decodes to an empty
  matrix is left out, and every other entry is there (of two usable entries with one
  name the later one). The object has each name once, and when the artifact's names are
  distinct its entries are precisely the usable ones. The name \<^verbatim>\<open>__proto__\<close>, which
  is no property name, is excluded.
\<close>

theorem loadFeaturesFromCache_omits_only_unusable:
  assumes "ordinary_key cat" "has_features s cat = False"
    and "fs (cacheFileName cat) = Parsed cached"
    and "template_names cached = Some names" "descriptors_list cached = Some blobs"
    and "length names = length blobs"
    and "list_all (\<lambda>name. name \<noteq> ''__proto__'') names"
  shows "\<exists>obj. js_get (templateFeatures (loadFeaturesFromCache fs s cat)) cat = Some obj
    \<and> map_of obj = map_of (rev (usable_entries (zip names blobs)))
    \<and> distinct (map fst obj)
    \<and> (distinct names \<longrightarrow> set obj = set (usable_entries (zip names blobs)))"
proof -
  let ?es = "usable_entries (zip names blobs)"
  let ?obj = "foldl (\<lambda>obj (name, m). js_set obj name m) [] ?es"
  have get: "js_get (templateFeatures (loadFeaturesFromCache fs s cat)) cat = Some ?obj"
    using assms(1-6) by (rule js_get_loadFeaturesFromCache_parsed)
  have "fst ` set (zip names blobs) = set (map fst (zip names blobs))"
    by (simp only: set_map)
  also have "\<dots> = set names"
    using assms(6) by simp
  finally have "fst ` set ?es \<subseteq> set names"
    using set_usable_entries_fst [of "zip names blobs"] by simp
  with assms(7) have "list_all (\<lambda>e. fst e \<noteq> ''__proto__'') ?es"
    by (auto simp: list_all_iff)
  then have m: "map_of ?obj = map_of (rev ?es)"
    using map_of_foldl_js_set [of ?es "[]"] by simp
  have d: "distinct (map fst ?obj)"
    by (rule distinct_foldl_js_set) simp
  have "set ?obj = set ?es" if "distinct names"
  proof -
    from that assms(6) have "distinct (map fst (zip names blobs))" by simp
    then have "distinct (map fst ?es)" by (rule distinct_usable_entries)
    then have "distinct (map fst (rev ?es))" by (simp add: rev_map [symmetric])
    with d m have "set ?obj = set (rev ?es)"
      by (simp add: map_of_inject_set)
    then show ?thesis by simp
  qed
  with get m d show ?thesis by blast
qed

lemma deserialize_zero_blob: "deserializeDescriptors zero_blob = Inr zero_descriptor"
  by (simp add: deserializeDescriptors_def Buffer_from_base64_def unbase64_def descriptorSize_def
      zero_blob_def zero_descriptor_def matFromArray_def CV_8U_def replicate_32)

lemma example_usable_entries:
  "usable_entries [(''lyria'', Some zero_blob), (''vyrn'', Some ''AAAA''), (''katalina'', None)] =
     [(''lyria'', zero_descriptor)]"
  by (simp add: usable_entries_def map_filter_simps deserialize_zero_blob)
    (simp add: deserializeDescriptors_def Buffer_from_base64_def unbase64_def descriptorSize_def
      zero_descriptor_def Mat_empty_def)

theorem loadFeaturesFromCache_omits_only_unusable_witness:
  "ordinary_key ''chara'' \<and> has_features init_state ''chara'' = False
   \<and> example_fs (cacheFileName ''chara'') =
       Parsed \<lparr>template_names = Some [''lyria'', ''vyrn'', ''katalina''],
               descriptors_list = Some [Some zero_blob, Some ''AAAA'', None]\<rparr>
   \<and> list_all (\<lambda>name. name \<noteq> ''__proto__'') [''lyria'', ''vyrn'', ''katalina'']
   \<and> (\<exists>obj. js_get (templateFeatures (loadFeaturesFromCache example_fs init_state ''chara''))
          ''chara'' = Some obj
        \<and> set obj = {(''lyria'', zero_descriptor)})"
proof -
  have o: "ordinary_key ''chara''"
    using ordinary_route_categories by (simp add: route_categories_def)
  have f: "example_fs (cacheFileName ''chara'') =
      Parsed \<lparr>template_names = Some [''lyria'', ''vyrn'', ''katalina''],
              descriptors_list = Some [Some zero_blob, Some ''AAAA'', None]\<rparr>"
    by (simp add: example_fs_def cacheFileName_def)
  have p: "list_all (\<lambda>name. name \<noteq> ''__proto__'') [''lyria'', ''vyrn'', ''katalina'']"
    by simp
  let ?cached = "\<lparr>template_names = Some [''lyria'', ''vyrn'', ''katalina''],
      descriptors_list = Some [Some zero_blob, Some ''AAAA'', None]\<rparr>"
  have n: "template_names ?cached = Some [''lyria'', ''vyrn'', ''katalina'']"
    and b: "descriptors_list ?cached = Some [Some zero_blob, Some ''AAAA'', None]"
    and l: "length [''lyria'', ''vyrn'', ''katalina''] =
      length [Some zero_blob, Some ''AAAA'', None]"
    by simp_all
  have "\<exists>obj. js_get (templateFeatures (loadFeaturesFromCache example_fs init_state ''chara''))
      ''chara'' = Some obj \<and> set obj = {(''lyria'', zero_descriptor)}"
    using loadFeaturesFromCache_omits_only_unusable
      [where fs = example_fs and cat = "''chara''" and s = init_state,
        OF o init_state_no_features f n b l p]
    by (auto simp: example_usable_entries)
  with o init_state_no_features f p show ?thesis by blast
qed

subsection \<open>The object of a category\<close>

lemma js_get_loadFeaturesFromCache_Some:
  assumes "ordinary_key cat"
  shows "\<exists>obj. js_get (templateFeatures (loadFeaturesFromCache fs s cat)) cat = Some obj"
proof (cases "has_features s cat")
  case True
  then show ?thesis
    by (auto simp: loadFeaturesFromCache_loaded has_features_def split: option.splits)
next
  case False
  let ?s2 = "(ensure_object s cat)\<lparr>artifact_reads := artifact_reads s @ [cacheFileName cat]\<rparr>"
  have get: "js_get (templateFeatures ?s2) cat = Some []"
    using js_get_ensure_object [OF assms] False by simp
  then have e: "ensure_object ?s2 cat = ?s2"
    by (rule ensure_object_present)
  have l: "\<exists>obj. js_get (templateFeatures (load_entries ?s2 cat ps)) cat = Some obj" for ps
    using js_get_load_entries [OF get ordinary_key_not_proto [OF assms], of ps] by blast
  from False get e l show ?thesis
    by (auto simp: loadFeaturesFromCache_def Let_def artifact_reads_ensure_object
        split: artifact.splits option.splits)
qed

lemma loadFeaturesFromCache_ensure_object:
  assumes "ordinary_key cat" "has_features s cat = False"
  shows "loadFeaturesFromCache fs (ensure_object s cat) cat = loadFeaturesFromCache fs s cat"
proof -
  have get: "js_get (templateFeatures (ensure_object s cat)) cat = Some []"
    using assms by (rule js_get_ensure_object)
  then have "ensure_object (ensure_object s cat) cat = ensure_object s cat"
    by (rule ensure_object_present)
  moreover from get have "has_features (ensure_object s cat) cat = False"
    by (simp add: has_features_def)
  ultimately show ?thesis
    using assms(2) by (simp add: loadFeaturesFromCache_def Let_def artifact_reads_ensure_object)
qed

section \<open>Properties of the matcher\<close>

subsection \<open>Single precision\<close>

text \<open>
  \<open>floor_sqrt\<close> is the integer square root, \<open>round_sqrt\<close> the integer nearest to the
  root, and \<open>float32_sqrt\<close> is within half a unit of the last of its 24 mantissa bits
  of the root: it is the correctly rounded single-precision root. The root of a square
  is exact.
\<close>

lemma floor_sqrt_correct:
  "floor_sqrt n * floor_sqrt n \<le> n \<and> n < (floor_sqrt n + 1) * (floor_sqrt n + 1)"
proof (induction n rule: floor_sqrt.induct)
  case (1 n)
  show ?case
  proof (cases "n < 4")
    case True
    then have "floor_sqrt n = (if n = 0 then 0 else 1)"
      by (subst floor_sqrt.simps) simp
    with True show ?thesis by auto
  next
    case False
    define f where "f = floor_sqrt (n div 4)"
    from 1 [OF False] have ih: "f * f \<le> n div 4" "n div 4 < (f + 1) * (f + 1)"
      by (simp_all add: f_def)
    from ih(1) have lo: "(2 * f) * (2 * f) \<le> n" by simp
    from ih(2) have "n div 4 + 1 \<le> (f + 1) * (f + 1)" by simp
    then have "4 * (n div 4) + 4 \<le> 4 * ((f + 1) * (f + 1))" by simp
    moreover have "n < 4 * (n div 4) + 4" by presburger
    ultimately have hi: "n < (2 * f + 2) * (2 * f + 2)" by (simp add: algebra_simps)
    have fs: "floor_sqrt n = (if (2 * f + 1) * (2 * f + 1) \<le> n then 2 * f + 1 else 2 * f)"
      using False by (simp add: floor_sqrt.simps [of n] f_def Let_def)
    show ?thesis
    proof (cases "(2 * f + 1) * (2 * f + 1) \<le> n")
      case True
      with fs hi show ?thesis by (simp add: algebra_simps)
    next
      case False
      with fs lo show ?thesis by (simp add: algebra_simps)
    qed
  qed
qed

lemma floor_sqrt_unique:
  assumes "f * f \<le> n" "n < (f + 1) * (f + 1)"
  shows "floor_sqrt n = f"
proof -
  let ?g = "floor_sqrt n"
  from floor_sqrt_correct [of n] have g: "?g * ?g \<le> n" "n < (?g + 1) * (?g + 1)" by simp_all
  have "\<not> ?g < f"
  proof
    assume "?g < f"
    then have le: "?g + 1 \<le> f" by simp
    from mult_le_mono [OF le le] have "(?g + 1) * (?g + 1) \<le> f * f" .
    with g(2) assms(1) show False by simp
  qed
  moreover have "\<not> f < ?g"
  proof
    assume "f < ?g"
    then have le: "f + 1 \<le> ?g" by simp
    from mult_le_mono [OF le le] have "(f + 1) * (f + 1) \<le> ?g * ?g" .
    with g(1) assms(2) show False by simp
  qed
  ultimately show ?thesis by simp
qed

lemma floor_sqrt_square: "floor_sqrt (x * x) = x"
  by (rule floor_sqrt_unique) (simp_all add: algebra_simps)

lemma round_sqrt_square: "round_sqrt (x * x) = x"
  by (simp add: round_sqrt_def floor_sqrt_square)

lemma round_sqrt_nearest:
  "(2 * round_sqrt n) * (2 * round_sqrt n) \<le> 4 * n + 4 * round_sqrt n
   \<and> 4 * n \<le> (2 * round_sqrt n + 1) * (2 * round_sqrt n + 1)"
proof -
  let ?f = "floor_sqrt n"
  from floor_sqrt_correct [of n] have f: "?f * ?f \<le> n" "n < (?f + 1) * (?f + 1)" by simp_all
  show ?thesis
  proof (cases "n \<le> ?f * ?f + ?f")
    case True
    then have "round_sqrt n = ?f" by (simp add: round_sqrt_def)
    with True f show ?thesis by (simp add: algebra_simps)
  next
    case False
    then have "round_sqrt n = ?f + 1" by (simp add: round_sqrt_def)
    with False f show ?thesis by (simp add: algebra_simps)
  qed
qed

lemma scale_up_result:
  "scale_up n k = (m, j) \<Longrightarrow>
     k \<le> j \<and> m = n * 4 ^ (j - k) \<and> (0 < n \<longrightarrow> 70368744177664 \<le> m)
     \<and> (n < 281474976710656 \<longrightarrow> m < 281474976710656)"
proof (induction n k arbitrary: m j rule: scale_up.induct)
  case (1 n k)
  show ?case
  proof (cases "n = 0 \<or> 70368744177664 \<le> n")
    case True
    with 1(2) show ?thesis by (auto simp: scale_up.simps [of n k])
  next
    case False
    with 1(2) have "scale_up (4 * n) (Suc k) = (m, j)"
      by (simp add: scale_up.simps [of n k])
    from 1(1) [OF _ _ this] False
    have "Suc k \<le> j" "m = 4 * n * 4 ^ (j - Suc k)" "70368744177664 \<le> m"
      "m < 281474976710656"
      by auto
    moreover from \<open>Suc k \<le> j\<close> have "j - k = Suc (j - Suc k)" by simp
    then have "(4::nat) * 4 ^ (j - Suc k) = 4 ^ (j - k)" by simp
    ultimately show ?thesis by (simp add: mult.assoc mult.left_commute)
  qed
qed

lemma float32_sqrt_square: "float32_sqrt (x * x) = real x"
proof -
  obtain m j where s: "scale_up (x * x) 0 = (m, j)" by (cases "scale_up (x * x) 0")
  from scale_up_result [OF s] have "m = x * x * 4 ^ j" by simp
  also have "\<dots> = (x * 2 ^ j) * (x * 2 ^ j)"
  proof -
    have "(4::nat) ^ j = (2 * 2) ^ j" by simp
    also have "\<dots> = 2 ^ j * 2 ^ j" by (rule power_mult_distrib)
    finally show ?thesis by (simp add: algebra_simps)
  qed
  finally have "round_sqrt m = x * 2 ^ j" by (simp only: round_sqrt_square)
  with s show ?thesis by (simp add: float32_sqrt_def)
qed

lemma round_sqrt_half:
  "\<bar>real (round_sqrt n) - sqrt (real n)\<bar> \<le> 1 / 2"
proof -
  let ?m = "round_sqrt n"
  let ?f = "floor_sqrt n"
  from floor_sqrt_correct [of n] have f: "?f * ?f \<le> n" "n < (?f + 1) * (?f + 1)" by simp_all
  have up: "n \<le> ?m * ?m + ?m"
    using f by (cases "n \<le> ?f * ?f + ?f") (simp_all add: round_sqrt_def algebra_simps)
  have lo: "?m * ?m \<le> n + ?m"
    using f by (cases "n \<le> ?f * ?f + ?f") (simp_all add: round_sqrt_def algebra_simps)
  have "sqrt (real n) \<le> real ?m + 1 / 2"
  proof (rule real_le_lsqrt)
    have "real n \<le> real (?m * ?m + ?m)" using up by (simp only: of_nat_le_iff)
    then show "real n \<le> (real ?m + 1 / 2)\<^sup>2"
      by (simp add: power2_eq_square algebra_simps)
  qed simp
  moreover have "real ?m - 1 / 2 \<le> sqrt (real n)"
  proof (cases "?m = 0")
    case True
    have "0 \<le> sqrt (real n)" by simp
    then have "- (1 / 2) \<le> sqrt (real n)" by linarith
    with True show ?thesis by simp
  next
    case False
    then have pos: "0 \<le> real ?m - 1 / 2" by simp
    have strict: "?m * ?m < n + ?m"
    proof (cases "n \<le> ?f * ?f + ?f")
      case True
      then have m: "?m = ?f" by (simp add: round_sqrt_def)
      with False have "?f * ?f < ?f * ?f + ?f" by simp
      with f(1) m show ?thesis by simp
    next
      case False
      then have "?m = ?f + 1" by (simp add: round_sqrt_def)
      with False show ?thesis by (simp add: algebra_simps)
    qed
    then have "?m * ?m + 1 \<le> n + ?m" by simp
    then have "real (?m * ?m + 1) \<le> real (n + ?m)" by (simp only: of_nat_le_iff)
    then have "(real ?m - 1 / 2)\<^sup>2 \<le> real n"
      by (simp add: power2_eq_square algebra_simps)
    then show ?thesis by (rule real_le_rsqrt)
  qed
  ultimately show ?thesis by linarith
qed

lemma float32_sqrt_nearest:
  assumes "0 < s" "s < 281474976710656"
  shows "\<exists>m k. float32_sqrt s = real m / 2 ^ k \<and> 8388608 \<le> m \<and> m \<le> 16777216
    \<and> \<bar>real m / 2 ^ k - sqrt (real s)\<bar> \<le> 1 / 2 ^ (k + 1)"
proof -
  obtain n k where sc: "scale_up s 0 = (n, k)" by (cases "scale_up s 0")
  from scale_up_result [OF sc] assms
  have n: "n = s * 4 ^ k" "70368744177664 \<le> n" "n < 281474976710656" by simp_all
  let ?m = "round_sqrt n"
  let ?f = "floor_sqrt n"
  from floor_sqrt_correct [of n] have f: "?f * ?f \<le> n" "n < (?f + 1) * (?f + 1)" by simp_all
  have flo: "8388608 \<le> ?f"
  proof (rule ccontr)
    assume "\<not> 8388608 \<le> ?f"
    then have le: "?f + 1 \<le> 8388608" by simp
    from mult_le_mono [OF le le] have "(?f + 1) * (?f + 1) \<le> 70368744177664" by simp
    with f(2) n(2) show False by simp
  qed
  have fhi: "?f < 16777216"
  proof (rule ccontr)
    assume "\<not> ?f < 16777216"
    then have le: "16777216 \<le> ?f" by simp
    from mult_le_mono [OF le le] have "281474976710656 \<le> ?f * ?f" by simp
    with f(1) n(3) show False by simp
  qed
  have m: "8388608 \<le> ?m" "?m \<le> 16777216"
    using flo fhi by (simp_all add: round_sqrt_def Let_def)
  have root: "sqrt (real n) = sqrt (real s) * 2 ^ k"
  proof -
    have "(4::nat) ^ k = (2 * 2) ^ k" by simp
    also have "\<dots> = 2 ^ k * 2 ^ k" by (rule power_mult_distrib)
    finally have "real n = real s * (2 ^ k * 2 ^ k)" by (simp add: n(1))
    then show ?thesis by (simp add: real_sqrt_mult)
  qed
  have "real ?m / 2 ^ k - sqrt (real s) = (real ?m - sqrt (real n)) / 2 ^ k"
    by (simp add: root diff_divide_distrib)
  then have "\<bar>real ?m / 2 ^ k - sqrt (real s)\<bar> = \<bar>real ?m - sqrt (real n)\<bar> / 2 ^ k"
    by (simp only: abs_divide) simp
  also have "\<dots> \<le> (1 / 2) / 2 ^ k"
    by (rule divide_right_mono [OF round_sqrt_half]) simp
  finally have "\<bar>real ?m / 2 ^ k - sqrt (real s)\<bar> \<le> 1 / 2 ^ (k + 1)" by simp
  moreover have "float32_sqrt s = real ?m / 2 ^ k"
    by (simp add: float32_sqrt_def sc)
  ultimately show ?thesis using m by blast
qed

text \<open>
  Rounding decides the ratio test at the margin: with the squared distances 18 and 32
  the exact roots are in the ratio 0.75 and the test would fail, but the rounded root of
  18 is below 0.75 times the rounded root of 32; with 348611 and 619753 the exact test
  would pass and the rounded one fails.
\<close>

lemma float32_sqrt_18_32: "float32_sqrt 18 < 0.75 * float32_sqrt 32"
  by (simp add: float32_sqrt_def scale_up.simps round_sqrt_def floor_sqrt.simps Let_def)

lemma float32_sqrt_348611_619753: "\<not> float32_sqrt 348611 < 0.75 * float32_sqrt 619753"
  by (simp add: float32_sqrt_def scale_up.simps round_sqrt_def floor_sqrt.simps Let_def)

subsection \<open>Nearest neighbours\<close>

lemma map_insort_key: "map f (insort_key f x xs) = insort (f x) (map f xs)"
  by (induction xs) auto

lemma map_sort_key: "map f (sort_key f xs) = sort (map f xs)"
  by (induction xs) (auto simp: map_insort_key)

lemma distance_train_matches:
  "map distance (train_matches q qi t) = distances (Mat_row q qi) t"
  by (simp add: train_matches_def distances_def descriptors_def comp_def)

lemma good_neighbours:
  "(case take 2 (sort_key distance ms) of
      m # n # _ \<Rightarrow> if distance m < ratioThresh * distance n then 1 else 0
    | _ \<Rightarrow> 0) = (if passes_ratio_test (map distance ms) then 1 else (0::nat))"
proof -
  have s: "sort (map distance ms) = map distance (sort_key distance ms)"
    by (simp add: map_sort_key)
  show ?thesis
    unfolding passes_ratio_test_def s
    by (auto simp: ratioThresh_def split: list.splits)
qed

lemma goodMatchesCount_map:
  "goodMatchesCount (map (\<lambda>qi. take 2 (sort_key distance (train_matches q qi t))) is) =
     length (filter (\<lambda>qi. passes_ratio_test (distances (Mat_row q qi) t)) is)"
  by (induction "is") (simp_all add: good_neighbours distance_train_matches)

lemma knnMatch_confidence:
  assumes "Mat_empty q = False" "mtype q = CV_8U" "comparable q t"
  shows "map_option goodMatchesCount (knnMatch q t 2) = Some (confidence_of q t)"
proof -
  from assms have "knnMatch q t 2 =
      Some (map (\<lambda>qi. take 2 (sort_key distance (train_matches q qi t))) [0..<rows q])"
    by (simp add: knnMatch_def comparable_def)
  then show ?thesis
    by (simp add: goodMatchesCount_map confidence_of_def descriptors_def filter_map comp_def)
qed

lemma knnMatch_width:
  assumes "Mat_empty q = False" "mtype q = CV_8U" "Mat_empty t = False" "mtype t = CV_8U"
    and "comparable q t = False"
  shows "knnMatch q t 2 = None"
  using assms by (simp add: knnMatch_def comparable_def)

subsection \<open>The loop over the templates\<close>

lemma match_templates_step:
  assumes "Mat_empty q = False" "mtype q = CV_8U"
  shows "match_templates q threshold earlyReturn ((name, t) # rest) matches compared =
    (if meets q threshold t
     then (if earlyReturn
           then (matches @ [\<lparr>id' = name, confidence = confidence_of q t\<rparr>], compared @ [name])
           else match_templates q threshold earlyReturn rest
                  (matches @ [\<lparr>id' = name, confidence = confidence_of q t\<rparr>])
                  (compared @ [name]))
     else match_templates q threshold earlyReturn rest matches
            (compared @ handed_to_matcher [(name, t)]))"
proof (cases "Mat_empty t = False \<and> mtype t = CV_8U")
  case False
  then show ?thesis
    by (auto simp: meets_def comparable_def handed_to_matcher_def)
next
  case True
  show ?thesis
  proof (cases "comparable q t")
    case False
    with True assms have "knnMatch q t 2 = None"
      by (simp add: knnMatch_width)
    with True False show ?thesis
      by (simp add: meets_def handed_to_matcher_def)
  next
    case c: True
    from knnMatch_confidence [OF assms c] obtain k where
      k: "knnMatch q t 2 = Some k" "goodMatchesCount k = confidence_of q t"
      by auto
    with True show ?thesis
      by (simp add: meets_def c handed_to_matcher_def Let_def)
  qed
qed

lemma handed_to_matcher_append:
  "handed_to_matcher (xs @ ys) = handed_to_matcher xs @ handed_to_matcher ys"
  by (simp add: handed_to_matcher_def)

lemma handed_to_matcher_meets:
  "meets q threshold t \<Longrightarrow> handed_to_matcher ((name, t) # rest) = name # handed_to_matcher rest"
  by (simp add: handed_to_matcher_def meets_def comparable_def)

lemma match_templates_all:
  assumes "Mat_empty q = False" "mtype q = CV_8U"
  shows "match_templates q threshold False ts matches compared =
    (matches @ included q threshold ts, compared @ handed_to_matcher ts)"
proof (induction ts arbitrary: matches compared)
  case Nil
  then show ?case by (simp add: included_def handed_to_matcher_def)
next
  case (Cons p ts)
  obtain name t where p: "p = (name, t)" by (cases p)
  show ?case
  proof (cases "meets q threshold t")
    case True
    then show ?thesis
      unfolding p match_templates_step [OF assms]
      by (simp add: Cons.IH included_def handed_to_matcher_meets [OF True])
  next
    case False
    then show ?thesis
      unfolding p match_templates_step [OF assms]
      by (simp add: Cons.IH included_def handed_to_matcher_append [of "[(name, t)]" ts, simplified])
  qed
qed

lemma match_templates_skip:
  assumes "Mat_empty q = False" "mtype q = CV_8U"
    and "list_all (\<lambda>(name, t). meets q threshold t = False) pre"
  shows "match_templates q threshold earlyReturn (pre @ rest) matches compared =
    match_templates q threshold earlyReturn rest matches (compared @ handed_to_matcher pre)"
  using assms(3)
proof (induction pre arbitrary: compared)
  case Nil
  then show ?case by (simp add: handed_to_matcher_def)
next
  case (Cons p pre)
  obtain name t where p: "p = (name, t)" by (cases p)
  from Cons.prems have no: "meets q threshold t = False"
    and rest: "list_all (\<lambda>(name, t). meets q threshold t = False) pre"
    by (simp_all add: p)
  have "match_templates q threshold earlyReturn ((p # pre) @ rest) matches compared =
      match_templates q threshold earlyReturn (pre @ rest) matches
        (compared @ handed_to_matcher [(name, t)])"
    unfolding p using match_templates_step [OF assms(1,2), of threshold earlyReturn name t] no
    by simp
  also have "\<dots> = match_templates q threshold earlyReturn rest matches
      ((compared @ handed_to_matcher [(name, t)]) @ handed_to_matcher pre)"
    by (rule Cons.IH [OF rest])
  also have "(compared @ handed_to_matcher [(name, t)]) @ handed_to_matcher pre =
      compared @ handed_to_matcher (p # pre)"
    unfolding p using handed_to_matcher_append [of "[(name, t)]" pre] by simp
  finally show ?case .
qed

lemma match_templates_first:
  assumes "Mat_empty q = False" "mtype q = CV_8U"
    and "list_all (\<lambda>(name, t). meets q threshold t = False) pre"
    and "meets q threshold t"
  shows "match_templates q threshold True (pre @ (x, t) # post) matches compared =
    (matches @ [\<lparr>id' = x, confidence = confidence_of q t\<rparr>],
     compared @ handed_to_matcher pre @ [x])"
  unfolding match_templates_skip [OF assms(1-3)] match_templates_step [OF assms(1,2)]
  using assms(4) by simp

subsection \<open>\<^verbatim>\<open>matchEquipment\<close> on a loaded category\<close>

lemma matchEquipment_loaded:
  assumes "has_features (loadFeaturesFromCache fs s cat) cat"
    and "js_get (templateFeatures (loadFeaturesFromCache fs s cat)) cat = Some ts"
    and "Mat_empty q = False" "mtype q = CV_8U"
  shows "matchEquipment fs convertTo s q cat threshold top_n earlyReturn =
    (slice0 (sort_matches (fst (match_templates q threshold earlyReturn ts [] []))) top_n,
     loadFeaturesFromCache fs s cat, snd (match_templates q threshold earlyReturn ts [] []))"
proof (cases "has_features s cat")
  case True
  then have "loadFeaturesFromCache fs s cat = s"
    by (rule loadFeaturesFromCache_loaded)
  with True assms show ?thesis
    by (simp add: matchEquipment_def split: prod.splits)
next
  case False
  with assms show ?thesis
    by (simp add: matchEquipment_def split: prod.splits)
qed

lemma matchEquipment_empty_query:
  "Mat_empty q \<Longrightarrow>
     fst (matchEquipment fs convertTo s q cat threshold top_n earlyReturn) = []
     \<and> snd (snd (matchEquipment fs convertTo s q cat threshold top_n earlyReturn)) = []"
  by (simp add: matchEquipment_def Let_def)

subsection \<open>Ranking\<close>

lemma mset_sort_matches: "mset (sort_matches ms) = mset ms"
  by (simp add: sort_matches_def)

lemma sorted_sort_matches:
  "sorted_wrt (\<lambda>a b. confidence b \<le> confidence a) (sort_matches ms)"
proof -
  have "sorted (map (\<lambda>m. - int (confidence m)) (sort_matches ms))"
    unfolding sort_matches_def by (rule sorted_sort_key)
  then show ?thesis by (simp add: sorted_map)
qed

lemma stable_sort_matches:
  "filter (\<lambda>m. confidence m = c) (sort_matches ms) = filter (\<lambda>m. confidence m = c) ms"
  using sort_key_stable [of "\<lambda>m. - int (confidence m)" "- int c" ms]
  by (simp add: sort_matches_def)

lemma slice0_take: "0 \<le> n \<Longrightarrow> slice0 xs n = take (nat n) xs"
  by (simp add: slice0_def)

subsection \<open>The example descriptors\<close>

lemma take_drop_concat:
  "list_all (\<lambda>xs. length xs = c) xss \<Longrightarrow> i < length xss \<Longrightarrow>
     take c (drop (i * c) (concat xss)) = xss ! i"
proof (induction xss arbitrary: i)
  case Nil
  then show ?case by simp
next
  case (Cons xs xss)
  show ?case
  proof (cases i)
    case 0
    with Cons.prems show ?thesis by simp
  next
    case (Suc j)
    with Cons.prems have "take c (drop (j * c) (concat xss)) = xss ! j"
      by (intro Cons.IH) simp_all
    with Cons.prems Suc show ?thesis by (simp add: add.commute)
  qed
qed

lemma length_row_of: "length (row_of b) = 32"
  by (simp add: row_of_def)

lemma rows_mat_of: "rows (mat_of bs) = length bs"
  and cols_mat_of: "cols (mat_of bs) = 32"
  and mtype_mat_of: "mtype (mat_of bs) = CV_8U"
  by (simp_all add: mat_of_def matFromArray_def)

lemma Mat_empty_mat_of: "Mat_empty (mat_of bs) = (bs = [])"
  by (simp add: Mat_empty_def rows_mat_of cols_mat_of)

lemma descriptors_mat_of: "descriptors (mat_of bs) = map row_of bs"
proof (rule nth_equalityI)
  show "length (descriptors (mat_of bs)) = length (map row_of bs)"
    by (simp add: descriptors_def rows_mat_of)
next
  fix i
  assume "i < length (descriptors (mat_of bs))"
  then have i: "i < length bs"
    by (simp add: descriptors_def rows_mat_of)
  have "take 32 (drop (i * 32) (concat (map row_of bs))) = map row_of bs ! i"
    by (rule take_drop_concat) (simp_all add: i list_all_iff length_row_of)
  with i show "descriptors (mat_of bs) ! i = map row_of bs ! i"
    by (simp add: descriptors_def Mat_row_def mat_of_def matFromArray_def)
qed

lemma zeros_contribute_nothing:
  "sum_list (map f (zip (replicate n (0::byte)) (replicate n 0))) = n * f (0, 0)"
  by (induction n) simp_all

lemma normL2Sqr_row_of: "normL2Sqr (row_of a) (row_of b) = gap a b * gap a b"
proof -
  have "nat ((int (unat a) - int (unat b))\<^sup>2) = nat (\<bar>int (unat a) - int (unat b)\<bar>\<^sup>2)"
    by simp
  also have "\<dots> = (nat \<bar>int (unat a) - int (unat b)\<bar>)\<^sup>2"
    by (rule nat_power_eq) simp
  finally show ?thesis
    by (simp add: normL2Sqr_def row_of_def zeros_contribute_nothing gap_def power2_eq_square)
qed

lemma bit_count_0: "bit_count 0 = 0"
  by (simp add: bit_count_def)

lemma hamming_row_of: "hamming (row_of a) (row_of b) = bit_count (a XOR b)"
  by (simp add: hamming_def row_of_def zeros_contribute_nothing bit_count_0)

lemma distances_mat_of:
  "distances (row_of a) (mat_of bs) = map (\<lambda>b. real (gap a b)) bs"
  by (simp add: distances_def descriptors_mat_of normL2Sqr_row_of float32_sqrt_square comp_def)

lemma hamming_distances_mat_of:
  "hamming_distances (row_of a) (mat_of bs) = map (\<lambda>b. bit_count (a XOR b)) bs"
  by (simp add: hamming_distances_def descriptors_mat_of hamming_row_of comp_def)

lemma confidence_of_mat_of:
  "confidence_of (mat_of qs) (mat_of ts) =
     length (filter (\<lambda>a. passes_ratio_test (map (\<lambda>b. real (gap a b)) ts)) qs)"
  by (simp add: confidence_of_def descriptors_mat_of filter_map comp_def distances_mat_of)

lemma hamming_confidence_mat_of:
  "hamming_confidence (mat_of qs) (mat_of ts) =
     length (filter (\<lambda>a. passes_hamming_ratio_test (map (\<lambda>b. bit_count (a XOR b)) ts)) qs)"
  by (simp add: hamming_confidence_def descriptors_mat_of filter_map comp_def
      hamming_distances_mat_of)

lemma comparable_mat_of:
  "comparable (mat_of qs) (mat_of ts) = (ts \<noteq> [] \<and> length ts < 262144)"
  by (simp add: comparable_def Mat_empty_mat_of cols_mat_of mtype_mat_of rows_mat_of)

lemma comparable_new_Mat: "comparable q new_Mat = False"
  by (simp add: comparable_def Mat_empty_new_Mat)

lemma example_confidences:
  "confidence_of example_query (mat_of [0, 20]) = 1"
  "confidence_of example_query (mat_of [50, 60]) = 0"
  "confidence_of example_query (mat_of [0, 100]) = 2"
  by (simp_all add: example_query_def confidence_of_mat_of passes_ratio_test_def gap_def)

lemma example_included:
  "included example_query 1 example_templates =
     [\<lparr>id' = ''bow'', confidence = 1\<rparr>, \<lparr>id' = ''axe'', confidence = 2\<rparr>,
      \<lparr>id' = ''spear'', confidence = 1\<rparr>]"
  by (simp add: included_def example_templates_def meets_def example_confidences)
    (simp add: example_query_def comparable_mat_of comparable_new_Mat)

lemma example_ranked:
  "sort_matches [\<lparr>id' = ''bow'', confidence = 1\<rparr>, \<lparr>id' = ''axe'', confidence = 2\<rparr>,
      \<lparr>id' = ''spear'', confidence = 1\<rparr>] =
     [\<lparr>id' = ''axe'', confidence = 2\<rparr>, \<lparr>id' = ''bow'', confidence = 1\<rparr>,
      \<lparr>id' = ''spear'', confidence = 1\<rparr>]"
  by (simp add: sort_matches_def)

lemma spec_example_ranked:
  "slice0 (sort_matches [\<lparr>id' = ''B'', confidence = 12\<rparr>, \<lparr>id' = ''A'', confidence = 15\<rparr>]) 3 =
     [\<lparr>id' = ''A'', confidence = 15\<rparr>, \<lparr>id' = ''B'', confidence = 12\<rparr>]"
  by (simp add: sort_matches_def slice0_def)

lemma example_state_features: "has_features example_state ''weapon/main''"
  by (simp add: has_features_def example_state_def js_get_def example_templates_def)

lemma example_state_unchanged:
  "loadFeaturesFromCache example_fs example_state ''weapon/main'' = example_state"
  using example_state_features by (rule loadFeaturesFromCache_loaded)

lemma example_state_loaded:
  "has_features (loadFeaturesFromCache example_fs example_state ''weapon/main'') ''weapon/main''"
  "js_get (templateFeatures (loadFeaturesFromCache example_fs example_state ''weapon/main''))
     ''weapon/main'' = Some example_templates"
  unfolding example_state_unchanged
  by (simp_all add: has_features_def example_state_def js_get_def example_templates_def)

lemma example_query_ok:
  "Mat_empty example_query = False" "mtype example_query = CV_8U" "cols example_query \<le> 258"
  by (simp_all add: example_query_def Mat_empty_mat_of mtype_mat_of cols_mat_of)

subsection \<open>Descriptors at the margin of the ratio test\<close>

lemma length_padded: "length bs \<le> 32 \<Longrightarrow> length (padded bs) = 32"
  by (simp add: padded_def)

lemma rows_mat_of_rows: "rows (mat_of_rows rs) = length rs"
  and cols_mat_of_rows: "cols (mat_of_rows rs) = 32"
  and mtype_mat_of_rows: "mtype (mat_of_rows rs) = CV_8U"
  by (simp_all add: mat_of_rows_def matFromArray_def)

lemma descriptors_mat_of_rows:
  assumes "list_all (\<lambda>r. length r = 32) rs"
  shows "descriptors (mat_of_rows rs) = rs"
proof (rule nth_equalityI)
  show "length (descriptors (mat_of_rows rs)) = length rs"
    by (simp add: descriptors_def rows_mat_of_rows)
next
  fix i
  assume "i < length (descriptors (mat_of_rows rs))"
  then have i: "i < length rs"
    by (simp add: descriptors_def rows_mat_of_rows)
  have "take 32 (drop (i * 32) (concat rs)) = rs ! i"
    using assms i by (rule take_drop_concat)
  with i show "descriptors (mat_of_rows rs) ! i = rs ! i"
    by (simp add: descriptors_def Mat_row_def mat_of_rows_def matFromArray_def)
qed

lemma comparable_mat_of_rows:
  "comparable (mat_of qs) (mat_of_rows rs) = (rs \<noteq> [] \<and> length rs < 262144)"
  by (auto simp: comparable_def Mat_empty_def cols_mat_of rows_mat_of_rows cols_mat_of_rows
      mtype_mat_of_rows)

lemma normL2Sqr_zeros:
  "normL2Sqr (replicate (length bs + n) 0) (bs @ replicate n 0) =
     sum_list (map (\<lambda>b. unat b * unat b) bs)"
proof (induction bs)
  case Nil
  then show ?case
    by (simp add: normL2Sqr_def zeros_contribute_nothing)
next
  case (Cons b bs)
  have "nat ((int (unat (0::byte)) - int (unat b))\<^sup>2) = unat b * unat b"
    by (simp add: power2_eq_square nat_mult_distrib)
  with Cons show ?case
    by (simp add: normL2Sqr_def)
qed

lemma normL2Sqr_padded:
  assumes "length bs \<le> 32"
  shows "normL2Sqr (row_of 0) (padded bs) = sum_list (map (\<lambda>b. unat b * unat b) bs)"
proof -
  have "row_of 0 = replicate (length bs + (32 - length bs)) (0::byte)"
    using assms by (simp add: row_of_def replicate_32) (simp add: numeral_eq_Suc)
  then show ?thesis
    unfolding padded_def by (simp only: normL2Sqr_zeros)
qed

lemma margin_distances:
  "distances (row_of 0) margin_template = [float32_sqrt 18, float32_sqrt 32]"
  "distances (row_of 0) wide_margin_template = [float32_sqrt 348611, float32_sqrt 619753]"
  by (simp_all add: distances_def margin_template_def wide_margin_template_def
      descriptors_mat_of_rows length_padded normL2Sqr_padded)

lemma margin_ratio_tests:
  "passes_ratio_test [float32_sqrt 18, float32_sqrt 32]"
  "passes_ratio_test [float32_sqrt 348611, float32_sqrt 619753] = False"
  by (simp_all add: passes_ratio_test_def float32_sqrt_def scale_up.simps round_sqrt_def
      floor_sqrt.simps Let_def)

lemma confidence_of_query_mat_of:
  "confidence_of (mat_of qs) t =
     length (filter (\<lambda>a. passes_ratio_test (distances (row_of a) t)) qs)"
  by (simp add: confidence_of_def descriptors_mat_of filter_map comp_def)

lemma margin_confidences:
  "confidence_of ten_zero_descriptors margin_template = 10"
  "confidence_of ten_zero_descriptors wide_margin_template = 0"
  "confidence_of ten_zero_descriptors (mat_of [0, 100]) = 10"
proof -
  show "confidence_of ten_zero_descriptors margin_template = 10"
    by (simp add: ten_zero_descriptors_def confidence_of_query_mat_of margin_distances
        margin_ratio_tests)
  show "confidence_of ten_zero_descriptors wide_margin_template = 0"
    by (simp add: ten_zero_descriptors_def confidence_of_query_mat_of margin_distances
        margin_ratio_tests)
  show "confidence_of ten_zero_descriptors (mat_of [0, 100]) = 10"
    by (simp add: ten_zero_descriptors_def confidence_of_mat_of passes_ratio_test_def gap_def)
qed

lemma margin_comparable:
  "comparable ten_zero_descriptors margin_template"
  "comparable ten_zero_descriptors wide_margin_template"
  "comparable ten_zero_descriptors (mat_of [0, 100])"
  by (simp_all add: ten_zero_descriptors_def margin_template_def wide_margin_template_def
      comparable_mat_of_rows comparable_mat_of)

lemma margin_included:
  "included ten_zero_descriptors 10 margin_templates =
     [\<lparr>id' = ''lyria'', confidence = 10\<rparr>, \<lparr>id' = ''vyrn'', confidence = 10\<rparr>]"
  by (simp add: included_def margin_templates_def meets_def margin_confidences margin_comparable)

lemma margin_state_features: "has_features margin_state ''chara''"
  by (simp add: has_features_def margin_state_def js_get_def margin_templates_def)

lemma margin_state_unchanged:
  "loadFeaturesFromCache example_fs margin_state ''chara'' = margin_state"
  using margin_state_features by (rule loadFeaturesFromCache_loaded)

lemma margin_state_loaded:
  "has_features (loadFeaturesFromCache example_fs margin_state ''chara'') ''chara''"
  "js_get (templateFeatures (loadFeaturesFromCache example_fs margin_state ''chara'')) ''chara'' =
     Some margin_templates"
  unfolding margin_state_unchanged
  by (simp_all add: has_features_def margin_state_def js_get_def margin_templates_def)

lemma ten_zero_descriptors_ok:
  "Mat_empty ten_zero_descriptors = False" "mtype ten_zero_descriptors = CV_8U"
  "cols ten_zero_descriptors \<le> 258"
  by (simp_all add: ten_zero_descriptors_def Mat_empty_mat_of mtype_mat_of cols_mat_of)

section \<open>Properties of matching\<close>

subsection \<open>Confidence and inclusion\<close>

text \<open>
  C2, as the code has it. For a query of 8-bit descriptors that is not empty, whose
  descriptors have at most 258 bytes (the width up to which the matcher's sum of squares
  is exact; the descriptors the service decodes have 32), and a category that holds
  entries once the lazy load has had its turn (the load returns the state as it is when
  the entries are there already): the number of good matches the code counts for a
  comparable template is its confidence, the number of query descriptors whose nearest
  distance among the template's descriptors is strictly below 0.75 times the second
  nearest (none when the template has a single descriptor), the distances being the
  Euclidean distances as the matcher reports them, rounded to single precision;
  without early return the loop collects exactly the comparable templates whose
  confidence reaches the threshold, each of them with that confidence; the returned list
  holds only such templates, and all of them when \<^verbatim>\<open>top_n\<close> is at least their number.
  The rounding decides at the margin: with squared distances 18 and 32 the descriptor is
  a good match, with 348611 and 619753 it is not, and on the exact roots it would be the
  other way round in both cases.
\<close>

theorem matchEquipment_includes_by_confidence:
  assumes "has_features (loadFeaturesFromCache fs s cat) cat"
    and "js_get (templateFeatures (loadFeaturesFromCache fs s cat)) cat = Some ts"
    and "Mat_empty q = False" "mtype q = CV_8U" "cols q \<le> 258"
  shows "(comparable q t \<longrightarrow>
        map_option goodMatchesCount (knnMatch q t 2) = Some (confidence_of q t))
    \<and> fst (match_templates q threshold False ts [] []) = included q threshold ts
    \<and> list_all (\<lambda>m. threshold \<le> int (confidence m)) (included q threshold ts)
    \<and> set (fst (matchEquipment fs convertTo s q cat threshold top_n False))
        \<subseteq> set (included q threshold ts)
    \<and> (int (length (included q threshold ts)) \<le> top_n \<longrightarrow>
        set (fst (matchEquipment fs convertTo s q cat threshold top_n False))
          = set (included q threshold ts))"
proof -
  let ?inc = "included q threshold ts"
  have a: "comparable q t \<longrightarrow>
      map_option goodMatchesCount (knnMatch q t 2) = Some (confidence_of q t)"
    using knnMatch_confidence [OF assms(3,4)] by blast
  have b: "fst (match_templates q threshold False ts [] []) = ?inc"
    by (simp add: match_templates_all [OF assms(3,4)])
  have c: "list_all (\<lambda>m. threshold \<le> int (confidence m)) ?inc"
    by (auto simp: included_def list_all_iff meets_def)
  have r: "fst (matchEquipment fs convertTo s q cat threshold top_n False) =
      slice0 (sort_matches ?inc) top_n"
    by (simp add: matchEquipment_loaded [OF assms(1-4)] b)
  have "set (slice0 (sort_matches ?inc) top_n) \<subseteq> set (sort_matches ?inc)"
    by (auto simp: slice0_def dest: in_set_takeD)
  also have "\<dots> = set ?inc"
    by (simp add: sort_matches_def)
  finally have d: "set (fst (matchEquipment fs convertTo s q cat threshold top_n False))
      \<subseteq> set ?inc"
    unfolding r .
  have e: "set (fst (matchEquipment fs convertTo s q cat threshold top_n False)) = set ?inc"
    if "int (length ?inc) \<le> top_n"
  proof -
    from that have "slice0 (sort_matches ?inc) top_n = sort_matches ?inc"
      by (simp add: slice0_def sort_matches_def)
    then show ?thesis
      unfolding r by (simp add: sort_matches_def)
  qed
  from a b c d e show ?thesis by blast
qed

theorem matchEquipment_includes_by_confidence_witness:
  "has_features (loadFeaturesFromCache example_fs example_state ''weapon/main'') ''weapon/main''
   \<and> js_get (templateFeatures (loadFeaturesFromCache example_fs example_state ''weapon/main''))
       ''weapon/main'' = Some example_templates
   \<and> Mat_empty example_query = False \<and> mtype example_query = CV_8U
   \<and> cols example_query \<le> 258
   \<and> comparable example_query (mat_of [50, 60])
   \<and> map_option goodMatchesCount (knnMatch example_query (mat_of [50, 60]) 2) = Some 0
   \<and> fst (match_templates example_query 1 False example_templates [] []) =
       [\<lparr>id' = ''bow'', confidence = 1\<rparr>, \<lparr>id' = ''axe'', confidence = 2\<rparr>,
        \<lparr>id' = ''spear'', confidence = 1\<rparr>]
   \<and> set (fst (matchEquipment example_fs no_conversion example_state example_query
         ''weapon/main'' 1 3 False)) =
       {\<lparr>id' = ''bow'', confidence = 1\<rparr>, \<lparr>id' = ''axe'', confidence = 2\<rparr>,
        \<lparr>id' = ''spear'', confidence = 1\<rparr>}
   \<and> has_features (loadFeaturesFromCache example_fs margin_state ''chara'') ''chara''
   \<and> js_get (templateFeatures (loadFeaturesFromCache example_fs margin_state ''chara'')) ''chara''
       = Some margin_templates
   \<and> Mat_empty ten_zero_descriptors = False \<and> mtype ten_zero_descriptors = CV_8U
   \<and> cols ten_zero_descriptors \<le> 258
   \<and> distances (row_of 0) margin_template = [float32_sqrt 18, float32_sqrt 32]
   \<and> comparable ten_zero_descriptors margin_template
   \<and> map_option goodMatchesCount (knnMatch ten_zero_descriptors margin_template 2) = Some 10
   \<and> fst (match_templates ten_zero_descriptors 10 False margin_templates [] []) =
       [\<lparr>id' = ''lyria'', confidence = 10\<rparr>, \<lparr>id' = ''vyrn'', confidence = 10\<rparr>]
   \<and> set (fst (matchEquipment example_fs no_conversion margin_state ten_zero_descriptors
         ''chara'' 10 3 False)) =
       {\<lparr>id' = ''lyria'', confidence = 10\<rparr>, \<lparr>id' = ''vyrn'', confidence = 10\<rparr>}
   \<and> distances (row_of 0) wide_margin_template = [float32_sqrt 348611, float32_sqrt 619753]
   \<and> comparable ten_zero_descriptors wide_margin_template
   \<and> map_option goodMatchesCount (knnMatch ten_zero_descriptors wide_margin_template 2) = Some 0"
proof -
  note t = matchEquipment_includes_by_confidence [OF example_state_loaded example_query_ok,
      where t = "mat_of [50, 60]" and threshold = 1 and top_n = 3
        and convertTo = no_conversion]
  have c: "comparable example_query (mat_of [50, 60])"
    by (simp add: example_query_def comparable_mat_of)
  from t c have k: "map_option goodMatchesCount (knnMatch example_query (mat_of [50, 60]) 2) =
      Some 0"
    by (simp add: example_confidences)
  from t have m: "fst (match_templates example_query 1 False example_templates [] []) =
      [\<lparr>id' = ''bow'', confidence = 1\<rparr>, \<lparr>id' = ''axe'', confidence = 2\<rparr>,
       \<lparr>id' = ''spear'', confidence = 1\<rparr>]"
    by (simp add: example_included)
  from t have r: "set (fst (matchEquipment example_fs no_conversion example_state example_query
      ''weapon/main'' 1 3 False)) =
      {\<lparr>id' = ''bow'', confidence = 1\<rparr>, \<lparr>id' = ''axe'', confidence = 2\<rparr>,
       \<lparr>id' = ''spear'', confidence = 1\<rparr>}"
    by (simp add: example_included)
  note u = matchEquipment_includes_by_confidence [OF margin_state_loaded ten_zero_descriptors_ok,
      where t = margin_template and threshold = 10 and top_n = 3
        and convertTo = no_conversion]
  note w = matchEquipment_includes_by_confidence [OF margin_state_loaded ten_zero_descriptors_ok,
      where t = wide_margin_template and threshold = 10 and top_n = 3
        and convertTo = no_conversion]
  from u have k': "map_option goodMatchesCount (knnMatch ten_zero_descriptors margin_template 2) =
      Some 10"
    by (simp add: margin_comparable margin_confidences)
  from u have m': "fst (match_templates ten_zero_descriptors 10 False margin_templates [] []) =
      [\<lparr>id' = ''lyria'', confidence = 10\<rparr>, \<lparr>id' = ''vyrn'', confidence = 10\<rparr>]"
    by (simp add: margin_included)
  from u have r': "set (fst (matchEquipment example_fs no_conversion margin_state
      ten_zero_descriptors ''chara'' 10 3 False)) =
      {\<lparr>id' = ''lyria'', confidence = 10\<rparr>, \<lparr>id' = ''vyrn'', confidence = 10\<rparr>}"
    by (simp add: margin_included)
  from w have k'': "map_option goodMatchesCount
      (knnMatch ten_zero_descriptors wide_margin_template 2) = Some 0"
    by (simp add: margin_comparable margin_confidences)
  from example_state_loaded example_query_ok c k m r margin_state_loaded
    ten_zero_descriptors_ok margin_distances margin_comparable(1,2) k' m' r' k''
  show ?thesis by blast
qed

text \<open>
  C2, as it is stated, measures nearness by Hamming distance. The template
  \<^verbatim>\<open>lyria\<close> has the descriptors 3 and 4 (in the first byte), at Hamming distances 2
  and 1 and at Euclidean distances 3 and 4 from the zero descriptor. By Hamming
  distance each of the ten zero descriptors of the query is a good match (1 is below
  0.75 times 2), a confidence of 10, which meets the threshold 10. The code compares
  Euclidean distances (3 is not below 0.75 times 4, and both are exact in single
  precision), counts no good match, and returns the empty list.
\<close>

theorem hamming_confident_template_not_matched:
  "hamming_confidence ten_zero_descriptors near_template = 10
   \<and> confidence_of ten_zero_descriptors near_template = 0
   \<and> matchEquipment example_fs no_conversion near_state ten_zero_descriptors ''chara'' 10 3 False
       = ([], near_state, [''lyria''])"
proof -
  have b3: "bit_count (3::byte) = 2"
    by (simp add: bit_count_def upt_rec bit_numeral_rec numeral_eq_Suc)
  have b4: "bit_count (4::byte) = 1"
    by (simp add: bit_count_def upt_rec bit_iff_odd)
  have h: "hamming_confidence ten_zero_descriptors near_template = 10"
    by (simp add: ten_zero_descriptors_def near_template_def hamming_confidence_mat_of
        passes_hamming_ratio_test_def b3 b4)
  have c: "confidence_of ten_zero_descriptors near_template = 0"
    by (simp add: ten_zero_descriptors_def near_template_def confidence_of_mat_of
        passes_ratio_test_def gap_def)
  have q: "Mat_empty ten_zero_descriptors = False" "mtype ten_zero_descriptors = CV_8U"
    by (simp_all add: ten_zero_descriptors_def Mat_empty_mat_of mtype_mat_of)
  have f: "has_features near_state ''chara''"
    by (simp add: has_features_def near_state_def js_get_def)
  then have u: "loadFeaturesFromCache example_fs near_state ''chara'' = near_state"
    by (rule loadFeaturesFromCache_loaded)
  have s: "has_features (loadFeaturesFromCache example_fs near_state ''chara'') ''chara''"
    "js_get (templateFeatures (loadFeaturesFromCache example_fs near_state ''chara'')) ''chara'' =
       Some [(''lyria'', near_template)]"
    unfolding u by (simp_all add: has_features_def near_state_def js_get_def)
  have i: "included ten_zero_descriptors 10 [(''lyria'', near_template)] = []"
    by (simp add: included_def meets_def c)
  have d: "handed_to_matcher [(''lyria'', near_template)] = [''lyria'']"
    by (simp add: handed_to_matcher_def near_template_def Mat_empty_mat_of mtype_mat_of)
  have "matchEquipment example_fs no_conversion near_state ten_zero_descriptors ''chara'' 10 3
      False = ([], near_state, [''lyria''])"
    unfolding matchEquipment_loaded [OF s q] match_templates_all [OF q]
    by (simp add: i d u sort_matches_def slice0_def)
  with h c show ?thesis by blast
qed

subsection \<open>Ranking and truncation\<close>

lemma match_templates_early:
  assumes "Mat_empty q = False" "mtype q = CV_8U"
  shows "fst (match_templates q threshold True ts matches compared) =
    matches @ take 1 (included q threshold ts)"
proof (induction ts arbitrary: compared)
  case Nil
  then show ?case by (simp add: included_def)
next
  case (Cons p ts)
  obtain name t where p: "p = (name, t)" by (cases p)
  show ?case
    unfolding p match_templates_step [OF assms]
    by (cases "meets q threshold t") (simp_all add: Cons.IH included_def)
qed

text \<open>
  C3. For a query of 8-bit descriptors that is not empty, whose descriptors have at most
  258 bytes, a category that holds entries once the lazy load has had its turn, and a
  limit \<^verbatim>\<open>top_n\<close> that is not negative, the returned list is the first \<^verbatim>\<open>top_n\<close>
  entries (all of them when there are fewer) of the ranking of the collected templates.
  Collected are the included templates, or with early return the first of them only;
  a template is included by its confidence, counted on the single-precision distances
  of the matcher. The ranking is a rearrangement of the collected templates in order of
  descending confidence in which templates of equal confidence keep their enumeration
  order.
\<close>

theorem matchEquipment_ranks_and_truncates:
  assumes "has_features (loadFeaturesFromCache fs s cat) cat"
    and "js_get (templateFeatures (loadFeaturesFromCache fs s cat)) cat = Some ts"
    and "Mat_empty q = False" "mtype q = CV_8U" "cols q \<le> 258" "0 \<le> top_n"
    and "collected = (if earlyReturn then take 1 (included q threshold ts)
                      else included q threshold ts)"
  shows "fst (matchEquipment fs convertTo s q cat threshold top_n earlyReturn) =
        take (nat top_n) (sort_matches collected)
    \<and> length (fst (matchEquipment fs convertTo s q cat threshold top_n earlyReturn)) \<le> nat top_n
    \<and> mset (sort_matches collected) = mset collected
    \<and> sorted_wrt (\<lambda>a b. confidence b \<le> confidence a) (sort_matches collected)
    \<and> (\<forall>c. filter (\<lambda>m. confidence m = c) (sort_matches collected) =
             filter (\<lambda>m. confidence m = c) collected)"
proof -
  have "fst (match_templates q threshold earlyReturn ts [] []) = collected"
    unfolding assms(7)
    using match_templates_early [OF assms(3,4), of threshold ts "[]" "[]"]
    by (cases earlyReturn) (simp_all add: match_templates_all [OF assms(3,4)])
  then have r: "fst (matchEquipment fs convertTo s q cat threshold top_n earlyReturn) =
      take (nat top_n) (sort_matches collected)"
    by (simp add: matchEquipment_loaded [OF assms(1-4)] slice0_take [OF assms(6)])
  then have "length (fst (matchEquipment fs convertTo s q cat threshold top_n earlyReturn))
      \<le> nat top_n"
    by simp
  with r show ?thesis
    using mset_sort_matches sorted_sort_matches stable_sort_matches by blast
qed

theorem matchEquipment_ranks_and_truncates_witness:
  "has_features (loadFeaturesFromCache example_fs example_state ''weapon/main'') ''weapon/main''
   \<and> js_get (templateFeatures (loadFeaturesFromCache example_fs example_state ''weapon/main''))
       ''weapon/main'' = Some example_templates
   \<and> Mat_empty example_query = False \<and> mtype example_query = CV_8U
   \<and> cols example_query \<le> 258 \<and> (0::int) \<le> 2
   \<and> included example_query 1 example_templates =
       [\<lparr>id' = ''bow'', confidence = 1\<rparr>, \<lparr>id' = ''axe'', confidence = 2\<rparr>,
        \<lparr>id' = ''spear'', confidence = 1\<rparr>]
   \<and> fst (matchEquipment example_fs no_conversion example_state example_query ''weapon/main''
         1 2 False) =
       [\<lparr>id' = ''axe'', confidence = 2\<rparr>, \<lparr>id' = ''bow'', confidence = 1\<rparr>]
   \<and> slice0 (sort_matches [\<lparr>id' = ''B'', confidence = 12\<rparr>, \<lparr>id' = ''A'', confidence = 15\<rparr>]) 3 =
       [\<lparr>id' = ''A'', confidence = 15\<rparr>, \<lparr>id' = ''B'', confidence = 12\<rparr>]
   \<and> has_features (loadFeaturesFromCache example_fs margin_state ''chara'') ''chara''
   \<and> js_get (templateFeatures (loadFeaturesFromCache example_fs margin_state ''chara'')) ''chara''
       = Some margin_templates
   \<and> Mat_empty ten_zero_descriptors = False \<and> mtype ten_zero_descriptors = CV_8U
   \<and> cols ten_zero_descriptors \<le> 258 \<and> (0::int) \<le> 3
   \<and> included ten_zero_descriptors 10 margin_templates =
       [\<lparr>id' = ''lyria'', confidence = 10\<rparr>, \<lparr>id' = ''vyrn'', confidence = 10\<rparr>]
   \<and> fst (matchEquipment example_fs no_conversion margin_state ten_zero_descriptors ''chara''
         10 3 False) =
       [\<lparr>id' = ''lyria'', confidence = 10\<rparr>, \<lparr>id' = ''vyrn'', confidence = 10\<rparr>]"
proof -
  have n: "(0::int) \<le> 2" by simp
  have c: "included example_query 1 example_templates =
      (if False then take 1 (included example_query 1 example_templates)
       else included example_query 1 example_templates)"
    by simp
  note t = matchEquipment_ranks_and_truncates [OF example_state_loaded example_query_ok n c,
      where convertTo = no_conversion]
  from t have "fst (matchEquipment example_fs no_conversion example_state example_query
      ''weapon/main'' 1 2 False) =
      take (nat 2) (sort_matches (included example_query 1 example_templates))"
    by (rule conjunct1)
  then have a: "fst (matchEquipment example_fs no_conversion example_state example_query
      ''weapon/main'' 1 2 False) =
      [\<lparr>id' = ''axe'', confidence = 2\<rparr>, \<lparr>id' = ''bow'', confidence = 1\<rparr>]"
    unfolding example_included example_ranked by simp
  have n': "(0::int) \<le> 3" by simp
  have c': "included ten_zero_descriptors 10 margin_templates =
      (if False then take 1 (included ten_zero_descriptors 10 margin_templates)
       else included ten_zero_descriptors 10 margin_templates)"
    by simp
  note u = matchEquipment_ranks_and_truncates
    [OF margin_state_loaded ten_zero_descriptors_ok n' c', where convertTo = no_conversion]
  from u have "fst (matchEquipment example_fs no_conversion margin_state ten_zero_descriptors
      ''chara'' 10 3 False) =
      take (nat 3) (sort_matches (included ten_zero_descriptors 10 margin_templates))"
    by (rule conjunct1)
  then have b: "fst (matchEquipment example_fs no_conversion margin_state ten_zero_descriptors
      ''chara'' 10 3 False) =
      [\<lparr>id' = ''lyria'', confidence = 10\<rparr>, \<lparr>id' = ''vyrn'', confidence = 10\<rparr>]"
    unfolding margin_included by (simp add: sort_matches_def)
  from example_state_loaded example_query_ok example_included n spec_example_ranked a
    margin_state_loaded ten_zero_descriptors_ok n' margin_included b
  show ?thesis by blast
qed

subsection \<open>Early return\<close>

text \<open>
  C4. With early return, for a query of 8-bit descriptors that is not empty, whose
  descriptors have at most 258 bytes, a category that holds entries once the lazy load
  has had its turn, and a limit of at least one: when \<^verbatim>\<open>x\<close> is the first template in
  enumeration order that is comparable and whose confidence, counted on the
  single-precision distances of the matcher, reaches the threshold, the result is that
  template alone, with its confidence, and the templates handed to the matcher are those
  before \<^verbatim>\<open>x\<close> and \<^verbatim>\<open>x\<close> itself: none of the templates after \<^verbatim>\<open>x\<close> is
  evaluated, whatever their confidence would be.
\<close>

theorem matchEquipment_early_return:
  assumes "has_features (loadFeaturesFromCache fs s cat) cat"
    and "js_get (templateFeatures (loadFeaturesFromCache fs s cat)) cat =
      Some (pre @ (x, t) # post)"
    and "Mat_empty q = False" "mtype q = CV_8U" "cols q \<le> 258" "1 \<le> top_n"
    and "list_all (\<lambda>(name, t'). meets q threshold t' = False) pre"
    and "meets q threshold t"
  shows "matchEquipment fs convertTo s q cat threshold top_n True =
    ([\<lparr>id' = x, confidence = confidence_of q t\<rparr>], loadFeaturesFromCache fs s cat,
     handed_to_matcher pre @ [x])"
proof -
  have "match_templates q threshold True (pre @ (x, t) # post) [] [] =
      ([\<lparr>id' = x, confidence = confidence_of q t\<rparr>], handed_to_matcher pre @ [x])"
    using match_templates_first [OF assms(3,4,7,8), of x post "[]" "[]"] by simp
  moreover have "slice0 (sort_matches [\<lparr>id' = x, confidence = confidence_of q t\<rparr>]) top_n =
      [\<lparr>id' = x, confidence = confidence_of q t\<rparr>]"
    using assms(6) by (simp add: slice0_def sort_matches_def take_Cons')
  ultimately show ?thesis
    by (simp add: matchEquipment_loaded [OF assms(1-4)])
qed

theorem matchEquipment_early_return_witness:
  "has_features (loadFeaturesFromCache example_fs example_state ''weapon/main'') ''weapon/main''
   \<and> js_get (templateFeatures (loadFeaturesFromCache example_fs example_state ''weapon/main''))
       ''weapon/main'' =
       Some ([] @ (''bow'', mat_of [0, 20]) #
         [(''staff'', mat_of [50, 60]), (''axe'', mat_of [0, 100]), (''void'', new_Mat),
          (''spear'', mat_of [0, 20])])
   \<and> Mat_empty example_query = False \<and> mtype example_query = CV_8U
   \<and> cols example_query \<le> 258 \<and> (1::int) \<le> 3
   \<and> meets example_query 1 (mat_of [0, 20])
   \<and> confidence_of example_query (mat_of [0, 100]) = 2
   \<and> matchEquipment example_fs no_conversion example_state example_query ''weapon/main'' 1 3 True
       = ([\<lparr>id' = ''bow'', confidence = 1\<rparr>], example_state, [''bow''])
   \<and> has_features (loadFeaturesFromCache example_fs margin_state ''chara'') ''chara''
   \<and> js_get (templateFeatures (loadFeaturesFromCache example_fs margin_state ''chara'')) ''chara''
       = Some ([(''katalina'', wide_margin_template)] @ (''lyria'', margin_template) #
           [(''vyrn'', mat_of [0, 100])])
   \<and> Mat_empty ten_zero_descriptors = False \<and> mtype ten_zero_descriptors = CV_8U
   \<and> cols ten_zero_descriptors \<le> 258
   \<and> meets ten_zero_descriptors 10 wide_margin_template = False
   \<and> meets ten_zero_descriptors 10 margin_template
   \<and> meets ten_zero_descriptors 10 (mat_of [0, 100])
   \<and> matchEquipment example_fs no_conversion margin_state ten_zero_descriptors ''chara'' 10 3 True
       = ([\<lparr>id' = ''lyria'', confidence = 10\<rparr>], margin_state, [''katalina'', ''lyria''])"
proof -
  have ts: "js_get (templateFeatures (loadFeaturesFromCache example_fs example_state
      ''weapon/main'')) ''weapon/main'' =
      Some ([] @ (''bow'', mat_of [0, 20]) #
        [(''staff'', mat_of [50, 60]), (''axe'', mat_of [0, 100]), (''void'', new_Mat),
         (''spear'', mat_of [0, 20])])"
    using example_state_loaded(2) by (simp add: example_templates_def)
  have n: "(1::int) \<le> 3" by simp
  have p: "list_all (\<lambda>(name, t'). meets example_query 1 t' = False) []" by simp
  have m: "meets example_query 1 (mat_of [0, 20])"
    by (simp add: meets_def example_confidences) (simp add: example_query_def comparable_mat_of)
  have a: "matchEquipment example_fs no_conversion example_state example_query ''weapon/main'' 1 3
      True = ([\<lparr>id' = ''bow'', confidence = 1\<rparr>], example_state, [''bow''])"
    using matchEquipment_early_return [OF example_state_loaded(1) ts example_query_ok n p m,
        where convertTo = no_conversion]
    by (simp add: example_confidences handed_to_matcher_def example_state_unchanged)
  have ts': "js_get (templateFeatures (loadFeaturesFromCache example_fs margin_state ''chara''))
      ''chara'' = Some ([(''katalina'', wide_margin_template)] @ (''lyria'', margin_template) #
          [(''vyrn'', mat_of [0, 100])])"
    using margin_state_loaded(2) by (simp add: margin_templates_def)
  have w: "meets ten_zero_descriptors 10 wide_margin_template = False"
    by (simp add: meets_def margin_confidences)
  have l: "meets ten_zero_descriptors 10 margin_template"
    by (simp add: meets_def margin_confidences margin_comparable)
  have v: "meets ten_zero_descriptors 10 (mat_of [0, 100])"
    by (simp add: meets_def margin_confidences margin_comparable)
  from w have p': "list_all (\<lambda>(name, t'). meets ten_zero_descriptors 10 t' = False)
      [(''katalina'', wide_margin_template)]"
    by simp
  have h: "handed_to_matcher [(''katalina'', wide_margin_template)] = [''katalina'']"
    by (simp add: handed_to_matcher_def wide_margin_template_def Mat_empty_def
        rows_mat_of_rows cols_mat_of_rows mtype_mat_of_rows)
  have b: "matchEquipment example_fs no_conversion margin_state ten_zero_descriptors ''chara'' 10 3
      True = ([\<lparr>id' = ''lyria'', confidence = 10\<rparr>], margin_state, [''katalina'', ''lyria''])"
    using matchEquipment_early_return
      [OF margin_state_loaded(1) ts' ten_zero_descriptors_ok n p' l,
        where convertTo = no_conversion]
    by (simp add: margin_confidences h margin_state_unchanged)
  from example_state_loaded(1) ts example_query_ok n m example_confidences(3) a
    margin_state_loaded(1) ts' ten_zero_descriptors_ok w l v b
  show ?thesis by blast
qed

subsection \<open>Empty queries\<close>

text \<open>
  C6. A match with an empty query returns the empty list and hands no template to the
  matcher, for every category and state; the lazy load of the category, when it has no
  entry yet, still runs before the query is looked at. The empty string decodes to the
  empty matrix, and the handler's entry for it is the empty match list, not an error.
\<close>

theorem matchEquipment_empty_query_matches_nothing:
  assumes "Mat_empty q"
  shows "fst (matchEquipment fs convertTo s q cat threshold top_n earlyReturn) = []
    \<and> snd (snd (matchEquipment fs convertTo s q cat threshold top_n earlyReturn)) = []
    \<and> deserializeDescriptors [] = Inr new_Mat \<and> Mat_empty new_Mat
    \<and> fst (detect_contents fs convertTo cat earlyReturn s [[]]) = [Inr []]"
proof -
  obtain ms s1 compared where
    m: "matchEquipment fs convertTo s new_Mat cat 10 3 earlyReturn = (ms, s1, compared)"
    by (cases "matchEquipment fs convertTo s new_Mat cat 10 3 earlyReturn") auto
  with matchEquipment_empty_query [OF Mat_empty_new_Mat, of fs convertTo s cat 10 3 earlyReturn]
  have "ms = []" by simp
  with m have "fst (detect_contents fs convertTo cat earlyReturn s [[]]) = [Inr []]"
    by (simp add: deserializeDescriptors_Nil)
  with matchEquipment_empty_query [OF assms] deserializeDescriptors_Nil Mat_empty_new_Mat
  show ?thesis by blast
qed

theorem matchEquipment_empty_query_matches_nothing_witness:
  "Mat_empty new_Mat
   \<and> fst (matchEquipment example_fs no_conversion example_state new_Mat ''weapon/main'' 1 3 False)
       = []
   \<and> snd (snd (matchEquipment example_fs no_conversion example_state new_Mat ''weapon/main'' 1 3
         False)) = []
   \<and> fst (detect_contents example_fs no_conversion ''weapon/main'' False example_state [[]]) =
       [Inr []]"
  using matchEquipment_empty_query_matches_nothing [OF Mat_empty_new_Mat,
      of example_fs no_conversion example_state "''weapon/main''" 1 3 False]
  by blast

subsection \<open>Categories without an initial entry\<close>

lemma collected_templates:
  assumes "Mat_empty q = False" "mtype q = CV_8U"
  shows "fst (match_templates q threshold earlyReturn ts [] []) =
    (if earlyReturn then take 1 (included q threshold ts) else included q threshold ts)"
  using match_templates_early [OF assms, of threshold ts "[]" "[]"]
  by (cases earlyReturn) (simp_all add: match_templates_all [OF assms])

text \<open>
  C10. A match against a category that \<^verbatim>\<open>templateFeatures\<close> does not hold (and that
  is no inherited property name) does not fail. The state it leaves is the one the loader
  leaves; the cache file of the category, and only that file, has been gone to once; and
  the category has an object. When the load fails the object is empty; when the artifact
  is well formed the object holds its usable entries, assigned one after the other as
  the artifact lists them. When the object is empty the result is the empty list and nothing is
  compared. When it is not, the match is the ordinary one: for a query of 8-bit
  descriptors that is not empty (of at most 258 bytes each) the result is the ranking of
  the included templates of the object, or with early return of the first of them, cut
  at \<^verbatim>\<open>top_n\<close>. Result, state and trace are those of the same match against the
  category configured with an empty object.
\<close>

theorem unconfigured_category_created_on_first_use:
  assumes "ordinary_key cat" "js_get (templateFeatures s) cat = None"
  shows "(case matchEquipment fs convertTo s q cat threshold top_n earlyReturn of
      (ms, s', compared) \<Rightarrow>
        s' = loadFeaturesFromCache fs s cat
        \<and> artifact_reads s' = artifact_reads s @ [cacheFileName cat]
        \<and> (\<exists>obj. js_get (templateFeatures s') cat = Some obj
              \<and> (load_fails fs cat \<longrightarrow> obj = [])
              \<and> (\<forall>cached names blobs.
                    fs (cacheFileName cat) = Parsed cached
                    \<and> template_names cached = Some names
                    \<and> descriptors_list cached = Some blobs
                    \<and> length names = length blobs \<longrightarrow>
                    obj = foldl (\<lambda>obj (name, m). js_set obj name m) []
                            (usable_entries (zip names blobs)))
              \<and> (obj = [] \<longrightarrow> ms = [] \<and> compared = [])
              \<and> (obj \<noteq> [] \<and> Mat_empty q = False \<and> mtype q = CV_8U \<and> cols q \<le> 258 \<longrightarrow>
                    ms = slice0 (sort_matches
                           (if earlyReturn then take 1 (included q threshold obj)
                            else included q threshold obj)) top_n)))
    \<and> matchEquipment fs convertTo s q cat threshold top_n earlyReturn =
        matchEquipment fs convertTo
          (s\<lparr>templateFeatures := js_set (templateFeatures s) cat []\<rparr>) q cat
          threshold top_n earlyReturn"
proof -
  from assms(2) have nf: "has_features s cat = False"
    by (simp add: has_features_def)
  obtain ms s' compared where
    m: "matchEquipment fs convertTo s q cat threshold top_n earlyReturn = (ms, s', compared)"
    by (cases "matchEquipment fs convertTo s q cat threshold top_n earlyReturn") auto
  have s': "s' = loadFeaturesFromCache fs s cat"
    using matchEquipment_state [of fs convertTo s q cat threshold top_n earlyReturn] m nf
    by simp
  obtain obj where get: "js_get (templateFeatures s') cat = Some obj"
    unfolding s' using js_get_loadFeaturesFromCache_Some [OF assms(1)] by blast
  have reads: "artifact_reads s' = artifact_reads s @ [cacheFileName cat]"
    unfolding s' using nf by (rule artifact_reads_loadFeaturesFromCache)
  have failed: "obj = []" if "load_fails fs cat"
  proof -
    have "js_get (templateFeatures s') cat = Some []"
      unfolding s' loadFeaturesFromCache_fails [OF assms(1) nf that]
      using js_get_ensure_object [OF assms(1) nf] by simp
    with get show ?thesis by simp
  qed
  have loaded: "obj = foldl (\<lambda>obj (name, m). js_set obj name m) []
      (usable_entries (zip names blobs))"
    if "fs (cacheFileName cat) = Parsed cached \<and> template_names cached = Some names
      \<and> descriptors_list cached = Some blobs \<and> length names = length blobs"
    for cached names blobs
  proof -
    from that have "js_get (templateFeatures s') cat =
        Some (foldl (\<lambda>obj (name, m). js_set obj name m) [] (usable_entries (zip names blobs)))"
      unfolding s' using js_get_loadFeaturesFromCache_parsed [OF assms(1) nf] by blast
    with get show ?thesis by simp
  qed
  have none: "ms = [] \<and> compared = []" if "obj = []"
  proof -
    from that get have "has_features (loadFeaturesFromCache fs s cat) cat = False"
      unfolding s' by (simp add: has_features_def)
    from matchEquipment_no_features [OF nf this, of convertTo q threshold top_n earlyReturn] m
    show ?thesis by simp
  qed
  have matched: "ms = slice0 (sort_matches
      (if earlyReturn then take 1 (included q threshold obj) else included q threshold obj)) top_n"
    if "obj \<noteq> [] \<and> Mat_empty q = False \<and> mtype q = CV_8U \<and> cols q \<le> 258"
  proof -
    from that have o: "obj \<noteq> []" and q: "Mat_empty q = False" "mtype q = CV_8U"
      by simp_all
    from o get have h: "has_features (loadFeaturesFromCache fs s cat) cat"
      unfolding s' by (simp add: has_features_def)
    from get have g: "js_get (templateFeatures (loadFeaturesFromCache fs s cat)) cat = Some obj"
      unfolding s' .
    from matchEquipment_loaded [OF h g q, of convertTo threshold top_n earlyReturn] m
    show ?thesis
      by (simp add: collected_templates [OF q])
  qed
  have eo: "s\<lparr>templateFeatures := js_set (templateFeatures s) cat []\<rparr> = ensure_object s cat"
    using assms(2) by (simp add: ensure_object_def)
  have nf': "has_features (ensure_object s cat) cat = False"
    using js_get_ensure_object [OF assms(1) nf] by (simp add: has_features_def)
  have same: "matchEquipment fs convertTo s q cat threshold top_n earlyReturn =
      matchEquipment fs convertTo (ensure_object s cat) q cat threshold top_n earlyReturn"
    using nf nf' loadFeaturesFromCache_ensure_object [OF assms(1) nf, of fs]
    by (simp add: matchEquipment_def)
  have "case matchEquipment fs convertTo s q cat threshold top_n earlyReturn of
      (ms, s', compared) \<Rightarrow>
        s' = loadFeaturesFromCache fs s cat
        \<and> artifact_reads s' = artifact_reads s @ [cacheFileName cat]
        \<and> (\<exists>obj. js_get (templateFeatures s') cat = Some obj
              \<and> (load_fails fs cat \<longrightarrow> obj = [])
              \<and> (\<forall>cached names blobs.
                    fs (cacheFileName cat) = Parsed cached
                    \<and> template_names cached = Some names
                    \<and> descriptors_list cached = Some blobs
                    \<and> length names = length blobs \<longrightarrow>
                    obj = foldl (\<lambda>obj (name, m). js_set obj name m) []
                            (usable_entries (zip names blobs)))
              \<and> (obj = [] \<longrightarrow> ms = [] \<and> compared = [])
              \<and> (obj \<noteq> [] \<and> Mat_empty q = False \<and> mtype q = CV_8U \<and> cols q \<le> 258 \<longrightarrow>
                    ms = slice0 (sort_matches
                           (if earlyReturn then take 1 (included q threshold obj)
                            else included q threshold obj)) top_n))"
    unfolding m prod.case
  proof (intro conjI)
    show "s' = loadFeaturesFromCache fs s cat" by (rule s')
    show "artifact_reads s' = artifact_reads s @ [cacheFileName cat]" by (rule reads)
    show "\<exists>obj. js_get (templateFeatures s') cat = Some obj
        \<and> (load_fails fs cat \<longrightarrow> obj = [])
        \<and> (\<forall>cached names blobs.
              fs (cacheFileName cat) = Parsed cached
              \<and> template_names cached = Some names
              \<and> descriptors_list cached = Some blobs
              \<and> length names = length blobs \<longrightarrow>
              obj = foldl (\<lambda>obj (name, m). js_set obj name m) []
                      (usable_entries (zip names blobs)))
        \<and> (obj = [] \<longrightarrow> ms = [] \<and> compared = [])
        \<and> (obj \<noteq> [] \<and> Mat_empty q = False \<and> mtype q = CV_8U \<and> cols q \<le> 258 \<longrightarrow>
              ms = slice0 (sort_matches
                     (if earlyReturn then take 1 (included q threshold obj)
                      else included q threshold obj)) top_n)"
      using get failed loaded none matched by blast
  qed
  with same show ?thesis
    unfolding eo by (intro conjI)
qed

lemma deserialize_two_descriptor_blob:
  "deserializeDescriptors two_descriptor_blob = Inr (mat_of [0, 255])"
  by (simp add: deserializeDescriptors_def Buffer_from_base64_def unbase64_def descriptorSize_def
      two_descriptor_blob_def mat_of_def row_of_def matFromArray_def CV_8U_def)
    (simp add: numeral_eq_Suc)

lemma example_priority_usable:
  "usable_entries [(''colossus'', Some two_descriptor_blob), (''broken'', Some ''AAAA'')] =
     [(''colossus'', mat_of [0, 255])]"
  by (simp add: usable_entries_def map_filter_simps deserialize_two_descriptor_blob
      Mat_empty_mat_of)
    (simp add: deserializeDescriptors_def Buffer_from_base64_def unbase64_def descriptorSize_def)

lemma example_priority_stored:
  "js_set [] ''colossus'' m = [(''colossus'', m)]"
  by (simp add: js_set_def array_index_def is_digit_def)

lemma example_priority_included:
  "included ten_zero_descriptors 10 [(''colossus'', mat_of [0, 255])] =
     [\<lparr>id' = ''colossus'', confidence = 10\<rparr>]"
proof -
  have "confidence_of ten_zero_descriptors (mat_of [0, 255]) = 10"
    by (simp add: ten_zero_descriptors_def confidence_of_mat_of passes_ratio_test_def gap_def)
  moreover have "comparable ten_zero_descriptors (mat_of [0, 255])"
    by (simp add: ten_zero_descriptors_def comparable_mat_of)
  ultimately show ?thesis
    by (simp add: included_def meets_def)
qed

lemma init_state_priority_normal:
  "js_get (templateFeatures init_state) ''priority/weapon/normal'' = None"
  by (simp add: init_state_def templateFeatures_init_def js_get_def)

lemma init_state_priority: "js_get (templateFeatures init_state) ''priority/weapon/main'' = None"
  by (simp add: init_state_def templateFeatures_init_def js_get_def)

theorem unconfigured_category_created_on_first_use_witness:
  "ordinary_key ''priority/weapon/normal''
   \<and> js_get (templateFeatures init_state) ''priority/weapon/normal'' = None
   \<and> example_fs (cacheFileName ''priority/weapon/normal'') =
       Parsed \<lparr>template_names = Some [''colossus'', ''broken''],
               descriptors_list = Some [Some two_descriptor_blob, Some ''AAAA'']\<rparr>
   \<and> Mat_empty ten_zero_descriptors = False \<and> mtype ten_zero_descriptors = CV_8U
   \<and> cols ten_zero_descriptors \<le> 258
   \<and> fst (matchEquipment example_fs no_conversion init_state ten_zero_descriptors
         ''priority/weapon/normal'' 10 3 False) = [\<lparr>id' = ''colossus'', confidence = 10\<rparr>]
   \<and> js_get (templateFeatures (fst (snd (matchEquipment example_fs no_conversion init_state
         ten_zero_descriptors ''priority/weapon/normal'' 10 3 False)))) ''priority/weapon/normal'' =
       Some [(''colossus'', mat_of [0, 255])]
   \<and> artifact_reads (fst (snd (matchEquipment example_fs no_conversion init_state
         ten_zero_descriptors ''priority/weapon/normal'' 10 3 False))) =
       [''priority/weapon/normal_features.json'']
   \<and> ordinary_key ''priority/weapon/main''
   \<and> js_get (templateFeatures init_state) ''priority/weapon/main'' = None
   \<and> load_fails example_fs ''priority/weapon/main''
   \<and> matchEquipment example_fs no_conversion init_state zero_descriptor ''priority/weapon/main''
        10 3 False =
      ([], \<lparr>templateFeatures = templateFeatures_init @ [(''priority/weapon/main'', [])],
            artifact_reads = [''priority/weapon/main_features.json'']\<rparr>, [])"
proof -
  have o: "ordinary_key ''priority/weapon/main''"
    using ordinary_route_categories by (simp add: route_categories_def)
  note t = unconfigured_category_created_on_first_use [OF o init_state_priority,
      where fs = example_fs and convertTo = no_conversion and q = zero_descriptor
        and threshold = 10 and top_n = 3 and earlyReturn = False]
  have l: "loadFeaturesFromCache example_fs init_state ''priority/weapon/main'' =
      \<lparr>templateFeatures = templateFeatures_init @ [(''priority/weapon/main'', [])],
        artifact_reads = [''priority/weapon/main_features.json'']\<rparr>"
    by (simp add: loadFeaturesFromCache_def has_features_def init_state_def
        templateFeatures_init_def js_get_def ensure_object_def cacheFileName_def example_fs_def
        js_set_def array_index_def is_digit_def)
  have lf: "load_fails example_fs ''priority/weapon/main''"
    by (simp add: load_fails_def example_fs_def cacheFileName_def)
  from t lf have a: "matchEquipment example_fs no_conversion init_state zero_descriptor
      ''priority/weapon/main'' 10 3 False =
      ([], loadFeaturesFromCache example_fs init_state ''priority/weapon/main'', [])"
    by (auto split: prod.splits)
  have o': "ordinary_key ''priority/weapon/normal''"
    using ordinary_route_categories by (simp add: route_categories_def)
  have f: "example_fs (cacheFileName ''priority/weapon/normal'') =
      Parsed \<lparr>template_names = Some [''colossus'', ''broken''],
              descriptors_list = Some [Some two_descriptor_blob, Some ''AAAA'']\<rparr>"
    by (simp add: example_fs_def cacheFileName_def)
  note u = unconfigured_category_created_on_first_use [OF o' init_state_priority_normal,
      where fs = example_fs and convertTo = no_conversion and q = ten_zero_descriptors
        and threshold = 10 and top_n = 3 and earlyReturn = False]
  obtain ms s' compared where
    m: "matchEquipment example_fs no_conversion init_state ten_zero_descriptors
      ''priority/weapon/normal'' 10 3 False = (ms, s', compared)"
    by (cases "matchEquipment example_fs no_conversion init_state ten_zero_descriptors
      ''priority/weapon/normal'' 10 3 False") auto
  from u obtain obj where
    get: "js_get (templateFeatures s') ''priority/weapon/normal'' = Some obj"
    and reads: "artifact_reads s' = artifact_reads init_state @
      [cacheFileName ''priority/weapon/normal'']"
    and loaded: "\<forall>cached names blobs.
      example_fs (cacheFileName ''priority/weapon/normal'') = Parsed cached
      \<and> template_names cached = Some names \<and> descriptors_list cached = Some blobs
      \<and> length names = length blobs \<longrightarrow>
      obj = foldl (\<lambda>obj (name, m). js_set obj name m) [] (usable_entries (zip names blobs))"
    and matched: "obj \<noteq> [] \<and> Mat_empty ten_zero_descriptors = False
      \<and> mtype ten_zero_descriptors = CV_8U \<and> cols ten_zero_descriptors \<le> 258 \<longrightarrow>
      ms = slice0 (sort_matches
        (if False then take 1 (included ten_zero_descriptors 10 obj)
         else included ten_zero_descriptors 10 obj)) 3"
    unfolding m prod.case by blast
  from loaded f have obj: "obj = [(''colossus'', mat_of [0, 255])]"
    by (simp add: example_priority_usable example_priority_stored)
  from matched ten_zero_descriptors_ok have ms: "ms = [\<lparr>id' = ''colossus'', confidence = 10\<rparr>]"
    unfolding obj by (simp add: example_priority_included sort_matches_def slice0_def)
  from reads have r: "artifact_reads s' = [''priority/weapon/normal_features.json'']"
    by (simp add: init_state_def cacheFileName_def)
  from o' init_state_priority_normal f ten_zero_descriptors_ok ms get [unfolded obj] r
    o init_state_priority lf a [unfolded l]
  show ?thesis
    unfolding m by simp
qed

end
